theory Spec2Isabelle
  imports Main "HOL-Library.Word"
begin

unbundle bit_operations_syntax

section \<open>The EEFC driver of libs/atsam4-hal/c (efc.h, efc.c)\<close>

type_synonym uint32_t = "32 word"

subsection \<open>Return codes (efc.h, enum efc\_rc)\<close>

text \<open>
  The enumeration gives two names to 0 and two names to 1, and both functions return
  \<open>uint32_t\<close>; the codes are therefore constants of that type, not a datatype.
  \<open>EFC_RC_INVALID\<close> follows \<open>EFC_RC_ERROR = 1\<close> without an initialiser, so it is 2.
\<close>

definition EFC_RC_OK :: uint32_t where "EFC_RC_OK = 0"
definition EFC_RC_YES :: uint32_t where "EFC_RC_YES = 0"
definition EFC_RC_NO :: uint32_t where "EFC_RC_NO = 1"
definition EFC_RC_ERROR :: uint32_t where "EFC_RC_ERROR = 1"
definition EFC_RC_INVALID :: uint32_t where "EFC_RC_INVALID = EFC_RC_ERROR + 1"
definition EFC_RC_NOT_SUPPORT :: uint32_t where "EFC_RC_NOT_SUPPORT = 0xFFFFFFFF"

definition NULL :: uint32_t where "NULL = 0"

subsection \<open>The macros of component\_efc.h\<close>

text \<open>
  efc.h includes component\_efc.h, which is not among the sources. The macros that efc.c
  takes from it are the fields of this record, so that both functions are modelled for
  any header: the four status flags, the key field already holding the password, the
  argument field, and mask and position of the command field.
\<close>

record component_efc =
  EEFC_FSR_FRDY :: uint32_t
  EEFC_FSR_FCMDE :: uint32_t
  EEFC_FSR_FLOCKE :: uint32_t
  EEFC_FSR_FLERR :: uint32_t
  EEFC_FCR_FKEY_PASSWD :: uint32_t
  EEFC_FCR_FARG :: "uint32_t \<Rightarrow> uint32_t"
  EEFC_FCR_FCMD_Msk :: uint32_t
  EEFC_FCR_FCMD_Pos :: nat

subsection \<open>The macros of efc.c\<close>

definition FWP_KEY :: uint32_t where "FWP_KEY = 0x5A"

definition EEFC_FCR_FCMD :: "component_efc \<Rightarrow> uint32_t \<Rightarrow> uint32_t" where
  "EEFC_FCR_FCMD c v = EEFC_FCR_FCMD_Msk c AND push_bit (EEFC_FCR_FCMD_Pos c) v"

definition EEFC_ERROR_FLAGS :: "component_efc \<Rightarrow> uint32_t" where
  "EEFC_ERROR_FLAGS c = EEFC_FSR_FLOCKE c OR EEFC_FSR_FCMDE c OR EEFC_FSR_FLERR c"

text \<open>
  Modelled from the spec: component\_efc.h is missing, and this is the header the spec's
  register table describes. The Command register holds the protection key, the fixed
  value 0x5A, in bits 31 to 24 and the command code in bits 7 to 0; the argument is 16
  bits wide at a position the spec leaves to the implementation, here the bits 23 to 8
  between the two (only argument 0 is ever encoded). The Status register has the four flags Ready, CommandError,
  LockError and ProgrammingError; the spec names them without positions, and this
  instance puts them at bits 0 to 3.
\<close>

definition spec_component_efc :: component_efc where
  "spec_component_efc =
     \<lparr> EEFC_FSR_FRDY = push_bit 0 1,
       EEFC_FSR_FCMDE = push_bit 1 1,
       EEFC_FSR_FLOCKE = push_bit 2 1,
       EEFC_FSR_FLERR = push_bit 3 1,
       EEFC_FCR_FKEY_PASSWD = push_bit 24 0x5A,
       EEFC_FCR_FARG = (\<lambda>v. push_bit 8 0xFFFF AND push_bit 8 v),
       EEFC_FCR_FCMD_Msk = push_bit 0 0xFF,
       EEFC_FCR_FCMD_Pos = 0 \<rparr>"

subsection \<open>The machine: register block, status trace, memory\<close>

text \<open>
  \<open>Efc *p_efc\<close> points to the register block, which is part of the state here. The
  accesses to it are volatile, so each one is an event of \<open>accesses\<close>, in program order:
  \<open>Rd r\<close> a read of register \<open>r\<close>, \<open>Wr r v\<close> a write of \<open>v\<close> to it. The loads and
  stores of the copy are events of the same list, \<open>Ld a\<close> a load from address \<open>a\<close> and
  \<open>St a v\<close> a store of \<open>v\<close> to \<open>a\<close>, so that the list tells where the copy lies
  among the register accesses.
  The Mode register keeps what was last written to it. The Status register is driven by
  the controller: its k-th read since power-up returns \<open>tr k\<close>, where the trace \<open>tr\<close>
  is a parameter of every function, and \<open>fsr_reads\<close> counts the reads made so far.
  Data pointers are byte addresses of 4-byte words in \<open>mem\<close>, element \<open>i\<close> of \<open>p\<close> lying
  at \<open>p + 4 * i\<close> in 32-bit arithmetic. They are aligned, as C requires of a
  \<open>uint32_t *\<close>, so two words are the same word or have no byte in common, and
  \<open>mem\<close> maps the address of a word to the word. The register block is not part of
  \<open>mem\<close>.
\<close>

datatype efc_reg = FMR | FCR | FSR

datatype access = Rd efc_reg | Wr efc_reg uint32_t | Ld uint32_t | St uint32_t uint32_t

record state =
  EEFC_FMR :: uint32_t
  EEFC_FCR :: uint32_t
  fsr_reads :: nat
  accesses :: "access list"
  mem :: "uint32_t \<Rightarrow> uint32_t"

definition read_FMR :: "state \<Rightarrow> uint32_t \<times> state" where
  "read_FMR s = (EEFC_FMR s, s\<lparr>accesses := accesses s @ [Rd FMR]\<rparr>)"

definition write_FMR :: "uint32_t \<Rightarrow> state \<Rightarrow> state" where
  "write_FMR v s = s\<lparr>EEFC_FMR := v, accesses := accesses s @ [Wr FMR v]\<rparr>"

definition write_FCR :: "uint32_t \<Rightarrow> state \<Rightarrow> state" where
  "write_FCR v s = s\<lparr>EEFC_FCR := v, accesses := accesses s @ [Wr FCR v]\<rparr>"

definition read_FSR :: "(nat \<Rightarrow> uint32_t) \<Rightarrow> state \<Rightarrow> uint32_t \<times> state" where
  "read_FSR tr s =
     (tr (fsr_reads s),
      s\<lparr>fsr_reads := Suc (fsr_reads s), accesses := accesses s @ [Rd FSR]\<rparr>)"

definition load :: "uint32_t \<Rightarrow> state \<Rightarrow> uint32_t \<times> state" where
  "load a s = (mem s a, s\<lparr>accesses := accesses s @ [Ld a]\<rparr>)"

definition store :: "uint32_t \<Rightarrow> uint32_t \<Rightarrow> state \<Rightarrow> state" where
  "store a v s = s\<lparr>mem := (mem s)(a := v), accesses := accesses s @ [St a v]\<rparr>"

subsection \<open>The loops\<close>

text \<open>
  \<open>do { ul_status = p_efc->EEFC_FSR; } while ((ul_status & EEFC_FSR_FRDY) == EEFC_FSR_FRDY);\<close>
  The loop has no bound: \<open>None\<close> is the call that never leaves it.
\<close>

partial_function (option) wait_frdy_falls ::
  "component_efc \<Rightarrow> (nat \<Rightarrow> uint32_t) \<Rightarrow> state \<Rightarrow> (uint32_t \<times> state) option" where
  "wait_frdy_falls c tr s =
     (let ul_status = fst (read_FSR tr s); s' = snd (read_FSR tr s) in
      if ul_status AND EEFC_FSR_FRDY c = EEFC_FSR_FRDY c
      then wait_frdy_falls c tr s'
      else Some (ul_status, s'))"

text \<open>
  \<open>do { ul_status = p_efc->EEFC_FSR; } while ((ul_status & EEFC_FSR_FRDY) != EEFC_FSR_FRDY);\<close>
  It ends \<open>efc_perform_read_sequence\<close> and is the whole of the wait in \<open>efc_perform_fcr\<close>.
\<close>

partial_function (option) wait_frdy_rises ::
  "component_efc \<Rightarrow> (nat \<Rightarrow> uint32_t) \<Rightarrow> state \<Rightarrow> (uint32_t \<times> state) option" where
  "wait_frdy_rises c tr s =
     (let ul_status = fst (read_FSR tr s); s' = snd (read_FSR tr s) in
      if ul_status AND EEFC_FSR_FRDY c \<noteq> EEFC_FSR_FRDY c
      then wait_frdy_rises c tr s'
      else Some (ul_status, s'))"

text \<open>
  \<open>for (ul_cnt = 0; ul_cnt < ul_size; ul_cnt++) p_ul_buf[ul_cnt] = p_ul_data[ul_cnt];\<close>
  Each turn loads a word from the source and stores it to the buffer. The counter is a
  \<open>uint32_t\<close> below \<open>ul_size\<close>, so the increment never wraps.
\<close>

function copy_loop ::
  "uint32_t \<Rightarrow> uint32_t \<Rightarrow> uint32_t \<Rightarrow> uint32_t \<Rightarrow> state \<Rightarrow> state" where
  "copy_loop p_ul_buf p_ul_data ul_size ul_cnt s =
     (if ul_cnt < ul_size
      then copy_loop p_ul_buf p_ul_data ul_size (ul_cnt + 1)
             (store (p_ul_buf + 4 * ul_cnt) (fst (load (p_ul_data + 4 * ul_cnt) s))
                (snd (load (p_ul_data + 4 * ul_cnt) s)))
      else s)"
  by pat_completeness auto
termination
  apply (relation "measure (\<lambda>(b, d, n, i, s). unat n - unat i)")
   apply simp
  apply (simp add: word_less_nat_alt)
  apply unat_arith
  done

declare copy_loop.simps [simp del]

subsection \<open>efc\_perform\_read\_sequence\<close>

definition efc_perform_read_sequence ::
  "component_efc \<Rightarrow> (nat \<Rightarrow> uint32_t) \<Rightarrow> uint32_t \<Rightarrow> uint32_t \<Rightarrow> uint32_t \<Rightarrow> uint32_t
     \<Rightarrow> uint32_t \<Rightarrow> state \<Rightarrow> (uint32_t \<times> state) option" where
  "efc_perform_read_sequence c tr ul_cmd_st ul_cmd_sp p_ul_buf ul_size p_ul_data s =
     (if p_ul_buf = NULL then Some (EFC_RC_INVALID, s)
      else
        let (fmr, s1) = read_FMR s;
            s2 = write_FMR (fmr OR push_bit 16 1) s1;
            s3 = write_FCR (EEFC_FCR_FKEY_PASSWD c OR EEFC_FCR_FARG c 0
                             OR EEFC_FCR_FCMD c ul_cmd_st) s2
        in (case wait_frdy_falls c tr s3 of
              None \<Rightarrow> None
            | Some (ul_status, s4) \<Rightarrow>
               (let s5 = copy_loop p_ul_buf p_ul_data ul_size 0 s4;
                    s6 = write_FCR (EEFC_FCR_FKEY_PASSWD c OR EEFC_FCR_FARG c 0
                                     OR EEFC_FCR_FCMD c ul_cmd_sp) s5
                in (case wait_frdy_rises c tr s6 of
                      None \<Rightarrow> None
                    | Some (ul_status', s7) \<Rightarrow>
                       (let (fmr', s8) = read_FMR s7;
                            s9 = write_FMR (fmr' AND NOT (push_bit 16 1)) s8
                        in Some (EFC_RC_OK, s9))))))"

subsection \<open>efc\_perform\_fcr\<close>

definition efc_perform_fcr ::
  "component_efc \<Rightarrow> (nat \<Rightarrow> uint32_t) \<Rightarrow> uint32_t \<Rightarrow> state \<Rightarrow> (uint32_t \<times> state) option" where
  "efc_perform_fcr c tr ul_fcr s =
     (case wait_frdy_rises c tr (write_FCR ul_fcr s) of
        None \<Rightarrow> None
      | Some (ul_status, s') \<Rightarrow> Some (ul_status AND EEFC_ERROR_FLAGS c, s'))"


subsection \<open>The read sequence, observed while it waits\<close>

text \<open>
  \<open>None\<close> says that a call never returns, not how far it got. To observe a call that
  is waiting, the two loops and \<open>efc_perform_read_sequence\<close> are written once more,
  statement for statement as above, with one difference: a loop stops after \<open>n\<close> reads
  of the Status register that did not end it. \<open>Polling s\<close> is then the state \<open>s\<close> of
  the call at that moment, inside the loop, and \<open>Done\<close> carries what a call returns
  that needed no more than \<open>n\<close> polls in either loop.
\<close>

datatype 'a progress = Done 'a | Polling state

fun wait_frdy_falls_upto ::
  "nat \<Rightarrow> component_efc \<Rightarrow> (nat \<Rightarrow> uint32_t) \<Rightarrow> state \<Rightarrow> (uint32_t \<times> state) progress" where
  "wait_frdy_falls_upto 0 c tr s = Polling s"
| "wait_frdy_falls_upto (Suc n) c tr s =
     (let ul_status = fst (read_FSR tr s); s' = snd (read_FSR tr s) in
      if ul_status AND EEFC_FSR_FRDY c = EEFC_FSR_FRDY c
      then wait_frdy_falls_upto n c tr s'
      else Done (ul_status, s'))"

fun wait_frdy_rises_upto ::
  "nat \<Rightarrow> component_efc \<Rightarrow> (nat \<Rightarrow> uint32_t) \<Rightarrow> state \<Rightarrow> (uint32_t \<times> state) progress" where
  "wait_frdy_rises_upto 0 c tr s = Polling s"
| "wait_frdy_rises_upto (Suc n) c tr s =
     (let ul_status = fst (read_FSR tr s); s' = snd (read_FSR tr s) in
      if ul_status AND EEFC_FSR_FRDY c \<noteq> EEFC_FSR_FRDY c
      then wait_frdy_rises_upto n c tr s'
      else Done (ul_status, s'))"

definition efc_perform_read_sequence_upto ::
  "nat \<Rightarrow> component_efc \<Rightarrow> (nat \<Rightarrow> uint32_t) \<Rightarrow> uint32_t \<Rightarrow> uint32_t \<Rightarrow> uint32_t
     \<Rightarrow> uint32_t \<Rightarrow> uint32_t \<Rightarrow> state \<Rightarrow> (uint32_t \<times> state) progress" where
  "efc_perform_read_sequence_upto n c tr ul_cmd_st ul_cmd_sp p_ul_buf ul_size p_ul_data s =
     (if p_ul_buf = NULL then Done (EFC_RC_INVALID, s)
      else
        let (fmr, s1) = read_FMR s;
            s2 = write_FMR (fmr OR push_bit 16 1) s1;
            s3 = write_FCR (EEFC_FCR_FKEY_PASSWD c OR EEFC_FCR_FARG c 0
                             OR EEFC_FCR_FCMD c ul_cmd_st) s2
        in (case wait_frdy_falls_upto n c tr s3 of
              Polling waiting \<Rightarrow> Polling waiting
            | Done (ul_status, s4) \<Rightarrow>
               (let s5 = copy_loop p_ul_buf p_ul_data ul_size 0 s4;
                    s6 = write_FCR (EEFC_FCR_FKEY_PASSWD c OR EEFC_FCR_FARG c 0
                                     OR EEFC_FCR_FCMD c ul_cmd_sp) s5
                in (case wait_frdy_rises_upto n c tr s6 of
                      Polling waiting \<Rightarrow> Polling waiting
                    | Done (ul_status', s7) \<Rightarrow>
                       (let (fmr', s8) = read_FMR s7;
                            s9 = write_FMR (fmr' AND NOT (push_bit 16 1)) s8
                        in Done (EFC_RC_OK, s9))))))"

subsection \<open>Vocabulary of the statements\<close>

text \<open>
  \<open>frdy c v\<close> is the test both loops apply to a status value: the Ready flag is set.
  \<open>polls n s\<close> is the state \<open>n\<close> reads of the Status register after \<open>s\<close>.
  \<open>writes_to r log\<close> lists, in order, the values that the accesses of \<open>log\<close> write to
  register \<open>r\<close>.
\<close>

definition frdy :: "component_efc \<Rightarrow> uint32_t \<Rightarrow> bool" where
  "frdy c v = (v AND EEFC_FSR_FRDY c = EEFC_FSR_FRDY c)"

definition polls :: "nat \<Rightarrow> state \<Rightarrow> state" where
  "polls n s =
     s\<lparr>fsr_reads := fsr_reads s + n, accesses := accesses s @ replicate n (Rd FSR)\<rparr>"

fun writes_to :: "efc_reg \<Rightarrow> access list \<Rightarrow> uint32_t list" where
  "writes_to r [] = []"
| "writes_to r (Rd r' # log) = writes_to r log"
| "writes_to r (Wr r' v # log) = (if r' = r then v # writes_to r log else writes_to r log)"
| "writes_to r (Ld a # log) = writes_to r log"
| "writes_to r (St a v # log) = writes_to r log"

text \<open>
  \<open>copy_mem p_ul_buf p_ul_data ul_size ul_cnt m\<close> is the memory that the copy loop,
  entered with counter \<open>ul_cnt\<close>, makes of the memory \<open>m\<close>, and
  \<open>copy_events p_ul_buf p_ul_data ul_size ul_cnt m\<close> the events it adds to the list of
  accesses.
\<close>

function copy_mem ::
  "uint32_t \<Rightarrow> uint32_t \<Rightarrow> uint32_t \<Rightarrow> uint32_t \<Rightarrow> (uint32_t \<Rightarrow> uint32_t)
     \<Rightarrow> (uint32_t \<Rightarrow> uint32_t)" where
  "copy_mem p_ul_buf p_ul_data ul_size ul_cnt m =
     (if ul_cnt < ul_size
      then copy_mem p_ul_buf p_ul_data ul_size (ul_cnt + 1)
             (m(p_ul_buf + 4 * ul_cnt := m (p_ul_data + 4 * ul_cnt)))
      else m)"
  by pat_completeness auto
termination
  apply (relation "measure (\<lambda>(b, d, n, i, m). unat n - unat i)")
   apply simp
  apply (simp add: word_less_nat_alt)
  apply unat_arith
  done

declare copy_mem.simps [simp del]

function copy_events ::
  "uint32_t \<Rightarrow> uint32_t \<Rightarrow> uint32_t \<Rightarrow> uint32_t \<Rightarrow> (uint32_t \<Rightarrow> uint32_t)
     \<Rightarrow> access list" where
  "copy_events p_ul_buf p_ul_data ul_size ul_cnt m =
     (if ul_cnt < ul_size
      then Ld (p_ul_data + 4 * ul_cnt) # St (p_ul_buf + 4 * ul_cnt) (m (p_ul_data + 4 * ul_cnt))
             # copy_events p_ul_buf p_ul_data ul_size (ul_cnt + 1)
                 (m(p_ul_buf + 4 * ul_cnt := m (p_ul_data + 4 * ul_cnt)))
      else [])"
  by pat_completeness auto
termination
  apply (relation "measure (\<lambda>(b, d, n, i, m). unat n - unat i)")
   apply simp
  apply (simp add: word_less_nat_alt)
  apply unat_arith
  done

declare copy_events.simps [simp del]

text \<open>
  \<open>start_read_mode w s\<close> is the state in which \<open>efc_perform_read_sequence\<close> enters its
  first loop: bit 16 of the Mode register set by a read and a write, then \<open>w\<close> written to
  the Command register.
\<close>

definition start_read_mode :: "uint32_t \<Rightarrow> state \<Rightarrow> state" where
  "start_read_mode w s =
     write_FCR w (write_FMR (EEFC_FMR s OR push_bit 16 1) (snd (read_FMR s)))"

text \<open>
  \<open>stop_read_mode w p_ul_buf ul_size p_ul_data s\<close> is the state in which it enters its
  second loop, coming from the state \<open>s\<close> in which the first loop ended: the words
  copied, then \<open>w\<close> written to the Command register.
\<close>

definition stop_read_mode ::
  "uint32_t \<Rightarrow> uint32_t \<Rightarrow> uint32_t \<Rightarrow> uint32_t \<Rightarrow> state \<Rightarrow> state" where
  "stop_read_mode w p_ul_buf ul_size p_ul_data s =
     write_FCR w (copy_loop p_ul_buf p_ul_data ul_size 0 s)"

text \<open>
  Concrete inputs. \<open>idle_state\<close> is a register block after reset with nothing read yet,
  over a memory in which every word holds its own address. In \<open>edges_trace\<close> Ready is
  still set at the first two polls, clear at the next three, and set from then on;
  in \<open>ready_trace\<close> it is set at every poll, with no error flag; in
  \<open>lock_error_trace\<close> it is clear at two polls and then set together with bit 2; in
  \<open>never_set_trace\<close> it is set at the first poll and clear at every later one.
\<close>

definition idle_state :: state where
  "idle_state =
     \<lparr> EEFC_FMR = 0, EEFC_FCR = 0, fsr_reads = 0, accesses = [], mem = id \<rparr>"

definition edges_trace :: "nat \<Rightarrow> uint32_t" where
  "edges_trace k = (if k < 2 then 1 else if k < 5 then 0 else 1)"

definition ready_trace :: "nat \<Rightarrow> uint32_t" where
  "ready_trace k = 1"

definition lock_error_trace :: "nat \<Rightarrow> uint32_t" where
  "lock_error_trace k = (if k < 2 then 0 else 5)"

definition never_set_trace :: "nat \<Rightarrow> uint32_t" where
  "never_set_trace k = (if k < 1 then 1 else 0)"

section \<open>Properties of the loops\<close>

lemma read_FSR_polls: "read_FSR tr s = (tr (fsr_reads s), polls 1 s)"
  by (simp add: read_FSR_def polls_def)

lemma polls_polls: "polls n (polls k s) = polls (k + n) s"
  by (simp add: polls_def replicate_add add.assoc)

lemma fsr_reads_polls: "fsr_reads (polls n s) = fsr_reads s + n"
  by (simp add: polls_def)

subsection \<open>Waiting for Ready to fall\<close>

lemma wait_frdy_falls_step:
  "wait_frdy_falls c tr s =
     (if frdy c (tr (fsr_reads s)) then wait_frdy_falls c tr (polls 1 s)
      else Some (tr (fsr_reads s), polls 1 s))"
  by (subst wait_frdy_falls.simps) (simp add: read_FSR_polls frdy_def)

lemma wait_frdy_falls_exit:
  "\<not> frdy c (tr (fsr_reads s + n)) \<Longrightarrow> (\<forall>k<n. frdy c (tr (fsr_reads s + k))) \<Longrightarrow>
   wait_frdy_falls c tr s = Some (tr (fsr_reads s + n), polls (Suc n) s)"
proof (induction n arbitrary: s)
  case 0
  then show ?case by (subst wait_frdy_falls_step) simp
next
  case (Suc n)
  have first: "frdy c (tr (fsr_reads s))"
    using Suc.prems(2) by (metis add.right_neutral zero_less_Suc)
  have "wait_frdy_falls c tr (polls 1 s)
          = Some (tr (fsr_reads (polls 1 s) + n), polls (Suc n) (polls 1 s))"
  proof (rule Suc.IH)
    show "\<not> frdy c (tr (fsr_reads (polls 1 s) + n))"
      using Suc.prems(1) by (simp add: fsr_reads_polls)
    show "\<forall>k<n. frdy c (tr (fsr_reads (polls 1 s) + k))"
    proof (intro allI impI)
      fix k assume "k < n"
      then have "Suc k < Suc n" by simp
      with Suc.prems(2) have "frdy c (tr (fsr_reads s + Suc k))" by blast
      then show "frdy c (tr (fsr_reads (polls 1 s) + k))" by (simp add: fsr_reads_polls)
    qed
  qed
  then show ?case
    by (subst wait_frdy_falls_step) (simp add: first fsr_reads_polls polls_polls)
qed

lemma wait_frdy_falls_sees_clear:
  "wait_frdy_falls c tr s = Some y \<Longrightarrow> \<exists>k. \<not> frdy c (tr (fsr_reads s + k))"
proof (induct rule: wait_frdy_falls.raw_induct [rotated 1, consumes 1])
  case (1 wf c tr s y)
  show ?case
  proof (cases "frdy c (tr (fsr_reads s))")
    case True
    with 1(2) have "wf c tr (polls 1 s) = Some y"
      by (simp add: read_FSR_polls frdy_def)
    from 1(1) [OF this] obtain k where "\<not> frdy c (tr (fsr_reads (polls 1 s) + k))" by blast
    then have "\<not> frdy c (tr (fsr_reads s + Suc k))" by (simp add: fsr_reads_polls)
    then show ?thesis by blast
  next
    case False
    then have "\<not> frdy c (tr (fsr_reads s + 0))" by simp
    then show ?thesis by blast
  qed
qed

lemma wait_frdy_falls_stuck:
  "(\<forall>k. frdy c (tr (fsr_reads s + k))) \<Longrightarrow> wait_frdy_falls c tr s = None"
  using wait_frdy_falls_sees_clear [of c tr s] by (cases "wait_frdy_falls c tr s") auto

lemma wait_frdy_falls_returns:
  assumes "\<not> frdy c (tr (fsr_reads s + a))"
  shows "\<exists>n\<le>a. \<not> frdy c (tr (fsr_reads s + n)) \<and> (\<forall>k<n. frdy c (tr (fsr_reads s + k)))
            \<and> wait_frdy_falls c tr s = Some (tr (fsr_reads s + n), polls (Suc n) s)"
proof -
  define n where "n = (LEAST k. \<not> frdy c (tr (fsr_reads s + k)))"
  have n1: "\<not> frdy c (tr (fsr_reads s + n))"
    unfolding n_def using assms by (rule LeastI)
  have n2: "\<forall>j<n. frdy c (tr (fsr_reads s + j))"
    unfolding n_def using not_less_Least by blast
  have n3: "n \<le> a"
    unfolding n_def using assms by (rule Least_le)
  from wait_frdy_falls_exit [OF n1 n2] n1 n2 n3 show ?thesis by blast
qed

lemma wait_frdy_falls_Some:
  assumes "wait_frdy_falls c tr s = Some (v, s')"
  shows "\<exists>n. \<not> frdy c (tr (fsr_reads s + n)) \<and> (\<forall>k<n. frdy c (tr (fsr_reads s + k)))
            \<and> v = tr (fsr_reads s + n) \<and> s' = polls (Suc n) s"
proof -
  from wait_frdy_falls_sees_clear [OF assms]
  obtain a where "\<not> frdy c (tr (fsr_reads s + a))" by blast
  from wait_frdy_falls_returns [of c tr s a, OF this] assms show ?thesis by auto
qed

subsection \<open>Waiting for Ready to rise\<close>

lemma wait_frdy_rises_step:
  "wait_frdy_rises c tr s =
     (if \<not> frdy c (tr (fsr_reads s)) then wait_frdy_rises c tr (polls 1 s)
      else Some (tr (fsr_reads s), polls 1 s))"
  by (subst wait_frdy_rises.simps) (simp add: read_FSR_polls frdy_def)

lemma wait_frdy_rises_exit:
  "frdy c (tr (fsr_reads s + n)) \<Longrightarrow> (\<forall>k<n. \<not> frdy c (tr (fsr_reads s + k))) \<Longrightarrow>
   wait_frdy_rises c tr s = Some (tr (fsr_reads s + n), polls (Suc n) s)"
proof (induction n arbitrary: s)
  case 0
  then show ?case by (subst wait_frdy_rises_step) simp
next
  case (Suc n)
  have first: "\<not> frdy c (tr (fsr_reads s))"
    using Suc.prems(2) by (metis add.right_neutral zero_less_Suc)
  have "wait_frdy_rises c tr (polls 1 s)
          = Some (tr (fsr_reads (polls 1 s) + n), polls (Suc n) (polls 1 s))"
  proof (rule Suc.IH)
    show "frdy c (tr (fsr_reads (polls 1 s) + n))"
      using Suc.prems(1) by (simp add: fsr_reads_polls)
    show "\<forall>k<n. \<not> frdy c (tr (fsr_reads (polls 1 s) + k))"
    proof (intro allI impI)
      fix k assume "k < n"
      then have "Suc k < Suc n" by simp
      with Suc.prems(2) have "\<not> frdy c (tr (fsr_reads s + Suc k))" by blast
      then show "\<not> frdy c (tr (fsr_reads (polls 1 s) + k))" by (simp add: fsr_reads_polls)
    qed
  qed
  then show ?case
    by (subst wait_frdy_rises_step) (simp add: first fsr_reads_polls polls_polls)
qed

lemma wait_frdy_rises_sees_set:
  "wait_frdy_rises c tr s = Some y \<Longrightarrow> \<exists>k. frdy c (tr (fsr_reads s + k))"
proof (induct rule: wait_frdy_rises.raw_induct [rotated 1, consumes 1])
  case (1 wr c tr s y)
  show ?case
  proof (cases "frdy c (tr (fsr_reads s))")
    case False
    with 1(2) have "wr c tr (polls 1 s) = Some y"
      by (simp add: read_FSR_polls frdy_def)
    from 1(1) [OF this] obtain k where "frdy c (tr (fsr_reads (polls 1 s) + k))" by blast
    then have "frdy c (tr (fsr_reads s + Suc k))" by (simp add: fsr_reads_polls)
    then show ?thesis by blast
  next
    case True
    then have "frdy c (tr (fsr_reads s + 0))" by simp
    then show ?thesis by blast
  qed
qed

lemma wait_frdy_rises_stuck:
  "(\<forall>k. \<not> frdy c (tr (fsr_reads s + k))) \<Longrightarrow> wait_frdy_rises c tr s = None"
  using wait_frdy_rises_sees_set [of c tr s] by (cases "wait_frdy_rises c tr s") auto

lemma wait_frdy_rises_returns:
  assumes "frdy c (tr (fsr_reads s + b))"
  shows "\<exists>n\<le>b. frdy c (tr (fsr_reads s + n)) \<and> (\<forall>k<n. \<not> frdy c (tr (fsr_reads s + k)))
            \<and> wait_frdy_rises c tr s = Some (tr (fsr_reads s + n), polls (Suc n) s)"
proof -
  define n where "n = (LEAST k. frdy c (tr (fsr_reads s + k)))"
  have n1: "frdy c (tr (fsr_reads s + n))"
    unfolding n_def using assms by (rule LeastI)
  have n2: "\<forall>j<n. \<not> frdy c (tr (fsr_reads s + j))"
    unfolding n_def using not_less_Least by blast
  have n3: "n \<le> b"
    unfolding n_def using assms by (rule Least_le)
  from wait_frdy_rises_exit [OF n1 n2] n1 n2 n3 show ?thesis by blast
qed

lemma wait_frdy_rises_Some:
  assumes "wait_frdy_rises c tr s = Some (v, s')"
  shows "\<exists>n. frdy c (tr (fsr_reads s + n)) \<and> (\<forall>k<n. \<not> frdy c (tr (fsr_reads s + k)))
            \<and> v = tr (fsr_reads s + n) \<and> s' = polls (Suc n) s"
proof -
  from wait_frdy_rises_sees_set [OF assms]
  obtain b where "frdy c (tr (fsr_reads s + b))" by blast
  from wait_frdy_rises_returns [of c tr s b, OF this] assms show ?thesis by auto
qed

subsection \<open>The loops cut off after a number of polls\<close>

lemma polls_0: "polls 0 s = s"
  by (simp add: polls_def)

lemma wait_frdy_falls_upto_polling:
  "(\<forall>k<n. frdy c (tr (fsr_reads s + k))) \<Longrightarrow> wait_frdy_falls_upto n c tr s = Polling (polls n s)"
proof (induction n arbitrary: s)
  case 0
  show ?case by (simp add: polls_0)
next
  case (Suc n)
  have first: "frdy c (tr (fsr_reads s))"
    using Suc.prems by (metis add.right_neutral zero_less_Suc)
  have "\<forall>k<n. frdy c (tr (fsr_reads (polls 1 s) + k))"
  proof (intro allI impI)
    fix k assume "k < n"
    then have "Suc k < Suc n" by simp
    with Suc.prems have "frdy c (tr (fsr_reads s + Suc k))" by blast
    then show "frdy c (tr (fsr_reads (polls 1 s) + k))" by (simp add: fsr_reads_polls)
  qed
  from Suc.IH [OF this] first show ?case
    by (simp add: read_FSR_polls polls_polls frdy_def)
qed

lemma wait_frdy_falls_upto_exit:
  "\<not> frdy c (tr (fsr_reads s + a)) \<Longrightarrow> (\<forall>k<a. frdy c (tr (fsr_reads s + k))) \<Longrightarrow> a < n \<Longrightarrow>
   wait_frdy_falls_upto n c tr s = Done (tr (fsr_reads s + a), polls (Suc a) s)"
proof (induction n arbitrary: s a)
  case 0
  then show ?case by simp
next
  case (Suc n)
  show ?case
  proof (cases a)
    case 0
    with Suc.prems(1) show ?thesis by (simp add: read_FSR_polls frdy_def)
  next
    case (Suc a')
    have first: "frdy c (tr (fsr_reads s))"
      using Suc.prems(2) Suc by (metis add.right_neutral zero_less_Suc)
    have 1: "\<not> frdy c (tr (fsr_reads (polls 1 s) + a'))"
      using Suc.prems(1) Suc by (simp add: fsr_reads_polls)
    have 2: "\<forall>k<a'. frdy c (tr (fsr_reads (polls 1 s) + k))"
    proof (intro allI impI)
      fix k assume "k < a'"
      then have "Suc k < a" using Suc by simp
      with Suc.prems(2) have "frdy c (tr (fsr_reads s + Suc k))" by blast
      then show "frdy c (tr (fsr_reads (polls 1 s) + k))" by (simp add: fsr_reads_polls)
    qed
    have 3: "a' < n" using Suc.prems(3) Suc by simp
    from Suc.IH [OF 1 2 3] first Suc show ?thesis
      by (simp add: read_FSR_polls polls_polls fsr_reads_polls frdy_def)
  qed
qed

lemma wait_frdy_falls_upto_Done:
  "wait_frdy_falls_upto n c tr s = Done r \<Longrightarrow> wait_frdy_falls c tr s = Some r"
proof (induction n arbitrary: s)
  case 0
  then show ?case by simp
next
  case (Suc n)
  show ?case
  proof (cases "frdy c (tr (fsr_reads s))")
    case True
    with Suc.prems have "wait_frdy_falls_upto n c tr (polls 1 s) = Done r"
      by (simp add: read_FSR_polls frdy_def)
    then have "wait_frdy_falls c tr (polls 1 s) = Some r" by (rule Suc.IH)
    with True show ?thesis by (subst wait_frdy_falls_step) simp
  next
    case False
    with Suc.prems have "r = (tr (fsr_reads s), polls 1 s)"
      by (simp add: read_FSR_polls frdy_def)
    with False show ?thesis by (subst wait_frdy_falls_step) simp
  qed
qed

lemma wait_frdy_rises_upto_polling:
  "(\<forall>k<n. \<not> frdy c (tr (fsr_reads s + k))) \<Longrightarrow>
   wait_frdy_rises_upto n c tr s = Polling (polls n s)"
proof (induction n arbitrary: s)
  case 0
  show ?case by (simp add: polls_0)
next
  case (Suc n)
  have first: "\<not> frdy c (tr (fsr_reads s))"
    using Suc.prems by (metis add.right_neutral zero_less_Suc)
  have "\<forall>k<n. \<not> frdy c (tr (fsr_reads (polls 1 s) + k))"
  proof (intro allI impI)
    fix k assume "k < n"
    then have "Suc k < Suc n" by simp
    with Suc.prems have "\<not> frdy c (tr (fsr_reads s + Suc k))" by blast
    then show "\<not> frdy c (tr (fsr_reads (polls 1 s) + k))" by (simp add: fsr_reads_polls)
  qed
  from Suc.IH [OF this] first show ?case
    by (simp add: read_FSR_polls polls_polls frdy_def)
qed

lemma wait_frdy_rises_upto_exit:
  "frdy c (tr (fsr_reads s + b)) \<Longrightarrow> (\<forall>k<b. \<not> frdy c (tr (fsr_reads s + k))) \<Longrightarrow> b < n \<Longrightarrow>
   wait_frdy_rises_upto n c tr s = Done (tr (fsr_reads s + b), polls (Suc b) s)"
proof (induction n arbitrary: s b)
  case 0
  then show ?case by simp
next
  case (Suc n)
  show ?case
  proof (cases b)
    case 0
    with Suc.prems(1) show ?thesis by (simp add: read_FSR_polls frdy_def)
  next
    case (Suc b')
    have first: "\<not> frdy c (tr (fsr_reads s))"
      using Suc.prems(2) Suc by (metis add.right_neutral zero_less_Suc)
    have 1: "frdy c (tr (fsr_reads (polls 1 s) + b'))"
      using Suc.prems(1) Suc by (simp add: fsr_reads_polls)
    have 2: "\<forall>k<b'. \<not> frdy c (tr (fsr_reads (polls 1 s) + k))"
    proof (intro allI impI)
      fix k assume "k < b'"
      then have "Suc k < b" using Suc by simp
      with Suc.prems(2) have "\<not> frdy c (tr (fsr_reads s + Suc k))" by blast
      then show "\<not> frdy c (tr (fsr_reads (polls 1 s) + k))" by (simp add: fsr_reads_polls)
    qed
    have 3: "b' < n" using Suc.prems(3) Suc by simp
    from Suc.IH [OF 1 2 3] first Suc show ?thesis
      by (simp add: read_FSR_polls polls_polls fsr_reads_polls frdy_def)
  qed
qed

lemma wait_frdy_rises_upto_Done:
  "wait_frdy_rises_upto n c tr s = Done r \<Longrightarrow> wait_frdy_rises c tr s = Some r"
proof (induction n arbitrary: s)
  case 0
  then show ?case by simp
next
  case (Suc n)
  show ?case
  proof (cases "frdy c (tr (fsr_reads s))")
    case False
    with Suc.prems have "wait_frdy_rises_upto n c tr (polls 1 s) = Done r"
      by (simp add: read_FSR_polls frdy_def)
    then have "wait_frdy_rises c tr (polls 1 s) = Some r" by (rule Suc.IH)
    with False show ?thesis by (subst wait_frdy_rises_step) simp
  next
    case True
    with Suc.prems have "r = (tr (fsr_reads s), polls 1 s)"
      by (simp add: read_FSR_polls frdy_def)
    with True show ?thesis by (subst wait_frdy_rises_step) simp
  qed
qed

section \<open>Properties of the copy loop\<close>

lemma word_inc_le_drop: "(i::uint32_t) < n \<Longrightarrow> i + 1 \<le> j \<Longrightarrow> i \<le> j"
  by unat_arith


lemma copy_mem_frame:
  "(\<forall>i. ul_cnt \<le> i \<and> i < ul_size \<longrightarrow> a \<noteq> p_ul_buf + 4 * i) \<Longrightarrow>
   copy_mem p_ul_buf p_ul_data ul_size ul_cnt m a = m a"
proof (induction p_ul_buf p_ul_data ul_size ul_cnt m rule: copy_mem.induct)
  case (1 p_ul_buf p_ul_data ul_size ul_cnt m)
  show ?case
  proof (cases "ul_cnt < ul_size")
    case True
    have here: "a \<noteq> p_ul_buf + 4 * ul_cnt"
      using "1.prems" True by simp
    have later: "\<forall>i. ul_cnt + 1 \<le> i \<and> i < ul_size \<longrightarrow> a \<noteq> p_ul_buf + 4 * i"
      using "1.prems" True word_inc_le_drop by blast
    have "copy_mem p_ul_buf p_ul_data ul_size ul_cnt m a
            = copy_mem p_ul_buf p_ul_data ul_size (ul_cnt + 1)
                (m(p_ul_buf + 4 * ul_cnt := m (p_ul_data + 4 * ul_cnt))) a"
      using True by (subst copy_mem.simps) (simp only: if_True)
    also have "\<dots> = (m(p_ul_buf + 4 * ul_cnt := m (p_ul_data + 4 * ul_cnt))) a"
      by (rule "1.IH" [OF True later])
    also have "\<dots> = m a"
      using here by simp
    finally show ?thesis .
  next
    case False
    then show ?thesis by (subst copy_mem.simps) simp
  qed
qed


lemma word_index_apart:
  assumes "i < ul_size" "ul_size \<le> j" "j < cap" "4 * unat (cap::uint32_t) \<le> 2 ^ 32"
  shows "p + 4 * j \<noteq> (p::uint32_t) + 4 * i"
proof
  assume "p + 4 * j = p + 4 * i"
  then have eq: "4 * j = 4 * i" by simp
  have ui: "unat i < unat j" using assms(1,2) by unat_arith
  have uj: "unat j < unat cap" using assms(3) by unat_arith
  have "unat (4 * j) = 4 * unat j"
    using uj assms(4) by (simp add: unat_word_ariths)
  moreover have "unat (4 * i) = 4 * unat i"
    using ui uj assms(4) by (simp add: unat_word_ariths)
  ultimately show False using eq ui by simp
qed

section \<open>Properties of the register accesses\<close>

lemma copy_loop_eq:
  "copy_loop p_ul_buf p_ul_data ul_size ul_cnt s =
     s\<lparr>mem := copy_mem p_ul_buf p_ul_data ul_size ul_cnt (mem s),
       accesses := accesses s @ copy_events p_ul_buf p_ul_data ul_size ul_cnt (mem s)\<rparr>"
proof (induction p_ul_buf p_ul_data ul_size ul_cnt s rule: copy_loop.induct)
  case (1 p_ul_buf p_ul_data ul_size ul_cnt s)
  show ?case
  proof (cases "ul_cnt < ul_size")
    case True
    from "1.IH" [OF True] True show ?thesis
      by (subst copy_loop.simps, subst copy_mem.simps, subst copy_events.simps)
         (simp add: load_def store_def del: fun_upd_apply)
  next
    case False
    then show ?thesis
      by (subst copy_loop.simps, subst copy_mem.simps, subst copy_events.simps) simp
  qed
qed

lemma writes_to_append: "writes_to r (xs @ ys) = writes_to r xs @ writes_to r ys"
  by (induction r xs rule: writes_to.induct) simp_all

lemma writes_to_polls: "writes_to r (replicate n (Rd r')) = []"
  by (induction n) simp_all

lemma writes_to_copy_events:
  "writes_to r (copy_events p_ul_buf p_ul_data ul_size ul_cnt m) = []"
proof (induction p_ul_buf p_ul_data ul_size ul_cnt m rule: copy_events.induct)
  case (1 p_ul_buf p_ul_data ul_size ul_cnt m)
  show ?case
  proof (cases "ul_cnt < ul_size")
    case True
    from "1.IH" [OF True] True show ?thesis
      by (subst copy_events.simps) (simp del: fun_upd_apply)
  next
    case False
    then show ?thesis by (subst copy_events.simps) simp
  qed
qed

lemma bit_mode_mask: "bit (push_bit 16 1 :: uint32_t) i = (i = 16)"
  by (auto simp only: bit_push_bit_iff bit_1_iff possible_bit_word len_of_numeral_defs)

lemma clear_after_set:
  "((x::uint32_t) OR push_bit 16 1) AND NOT (push_bit 16 1) = x AND NOT (push_bit 16 1)"
  by (rule bit_eqI) (auto simp only: bit_and_iff bit_or_iff bit_not_iff bit_mode_mask)

lemma mode_bit_off: "\<not> bit ((x::uint32_t) AND NOT (push_bit 16 1)) 16"
  by (simp only: bit_and_iff bit_not_iff bit_mode_mask) simp

lemma mode_bit_same: "\<not> bit (x::uint32_t) 16 \<Longrightarrow> x AND NOT (push_bit 16 1) = x"
  by (rule bit_eqI) (auto simp only: bit_and_iff bit_not_iff bit_mode_mask possible_bit_word)

lemma mode_bit_on: "bit ((x::uint32_t) OR push_bit 16 1) 16"
  by (simp only: bit_or_iff bit_mode_mask) simp

lemma and_flags_zero_iff:
  fixes v :: uint32_t
  shows "(v AND (a OR b OR d) = 0) = (v AND a = 0 \<and> v AND b = 0 \<and> v AND d = 0)"
  by (simp add: bit.conj_disj_distrib or_eq_0_iff)

lemma and_flags_no_ready:
  fixes v :: uint32_t
  assumes "e AND r = 0"
  shows "(v AND e) AND r = 0"
proof -
  have "(v AND e) AND r = v AND (e AND r)" by (simp add: and.assoc)
  with assms show ?thesis by simp
qed

section \<open>Properties of efc\_perform\_read\_sequence\<close>

lemma fsr_reads_start_read_mode: "fsr_reads (start_read_mode w s) = fsr_reads s"
  by (simp add: start_read_mode_def write_FCR_def write_FMR_def read_FMR_def)

lemma fsr_reads_stop_read_mode:
  "fsr_reads (stop_read_mode w p_ul_buf ul_size p_ul_data s) = fsr_reads s"
  by (simp add: stop_read_mode_def write_FCR_def copy_loop_eq)

lemma read_sequence_null:
  "efc_perform_read_sequence c tr ul_cmd_st ul_cmd_sp NULL ul_size p_ul_data s
     = Some (EFC_RC_INVALID, s)"
  by (simp add: efc_perform_read_sequence_def)

lemma read_sequence_unfold:
  "p_ul_buf \<noteq> NULL \<Longrightarrow>
   efc_perform_read_sequence c tr ul_cmd_st ul_cmd_sp p_ul_buf ul_size p_ul_data s =
     (case wait_frdy_falls c tr
             (start_read_mode (EEFC_FCR_FKEY_PASSWD c OR EEFC_FCR_FARG c 0
                                OR EEFC_FCR_FCMD c ul_cmd_st) s) of
        None \<Rightarrow> None
      | Some (ul_status, s4) \<Rightarrow>
          (case wait_frdy_rises c tr
                  (stop_read_mode (EEFC_FCR_FKEY_PASSWD c OR EEFC_FCR_FARG c 0
                                    OR EEFC_FCR_FCMD c ul_cmd_sp) p_ul_buf ul_size p_ul_data s4) of
             None \<Rightarrow> None
           | Some (ul_status', s7) \<Rightarrow>
               Some (EFC_RC_OK, write_FMR (EEFC_FMR s7 AND NOT (push_bit 16 1))
                                  (snd (read_FMR s7)))))"
  by (simp add: efc_perform_read_sequence_def start_read_mode_def stop_read_mode_def
        read_FMR_def Let_def split: option.splits)

lemma read_sequence_upto_unfold:
  "p_ul_buf \<noteq> NULL \<Longrightarrow>
   efc_perform_read_sequence_upto n c tr ul_cmd_st ul_cmd_sp p_ul_buf ul_size p_ul_data s =
     (case wait_frdy_falls_upto n c tr
             (start_read_mode (EEFC_FCR_FKEY_PASSWD c OR EEFC_FCR_FARG c 0
                                OR EEFC_FCR_FCMD c ul_cmd_st) s) of
        Polling waiting \<Rightarrow> Polling waiting
      | Done (ul_status, s4) \<Rightarrow>
          (case wait_frdy_rises_upto n c tr
                  (stop_read_mode (EEFC_FCR_FKEY_PASSWD c OR EEFC_FCR_FARG c 0
                                    OR EEFC_FCR_FCMD c ul_cmd_sp) p_ul_buf ul_size p_ul_data s4) of
             Polling waiting \<Rightarrow> Polling waiting
           | Done (ul_status', s7) \<Rightarrow>
               Done (EFC_RC_OK, write_FMR (EEFC_FMR s7 AND NOT (push_bit 16 1))
                                  (snd (read_FMR s7)))))"
  by (simp add: efc_perform_read_sequence_upto_def start_read_mode_def stop_read_mode_def
        read_FMR_def Let_def split: progress.splits)

lemma first_wait_state:
  "polls n (start_read_mode w s)
     = \<lparr> EEFC_FMR = EEFC_FMR s OR push_bit 16 1, EEFC_FCR = w, fsr_reads = fsr_reads s + n,
         accesses = (accesses s @ [Rd FMR, Wr FMR (EEFC_FMR s OR push_bit 16 1), Wr FCR w])
                      @ replicate n (Rd FSR),
         mem = mem s \<rparr>"
  by (simp add: polls_def start_read_mode_def write_FCR_def write_FMR_def read_FMR_def)

lemma second_wait_state:
  "polls n (stop_read_mode w' p_ul_buf ul_size p_ul_data (polls (Suc a) (start_read_mode w s)))
     = \<lparr> EEFC_FMR = EEFC_FMR s OR push_bit 16 1, EEFC_FCR = w',
         fsr_reads = fsr_reads s + Suc a + n,
         accesses = (accesses s @ [Rd FMR, Wr FMR (EEFC_FMR s OR push_bit 16 1), Wr FCR w])
                      @ replicate (Suc a) (Rd FSR)
                      @ copy_events p_ul_buf p_ul_data ul_size 0 (mem s)
                      @ [Wr FCR w'] @ replicate n (Rd FSR),
         mem = copy_mem p_ul_buf p_ul_data ul_size 0 (mem s) \<rparr>"
  by (simp add: polls_def start_read_mode_def stop_read_mode_def write_FCR_def write_FMR_def
        read_FMR_def copy_loop_eq)

lemma final_state:
  "write_FMR (EEFC_FMR s7 AND NOT (push_bit 16 1)) (snd (read_FMR s7))
     = \<lparr> EEFC_FMR = (EEFC_FMR s OR push_bit 16 1) AND NOT (push_bit 16 1), EEFC_FCR = w',
         fsr_reads = fsr_reads s + Suc a + Suc b,
         accesses = (accesses s @ [Rd FMR, Wr FMR (EEFC_FMR s OR push_bit 16 1), Wr FCR w])
                      @ replicate (Suc a) (Rd FSR)
                      @ copy_events p_ul_buf p_ul_data ul_size 0 (mem s)
                      @ [Wr FCR w'] @ replicate (Suc b) (Rd FSR)
                      @ [Rd FMR, Wr FMR ((EEFC_FMR s OR push_bit 16 1) AND NOT (push_bit 16 1))],
         mem = copy_mem p_ul_buf p_ul_data ul_size 0 (mem s) \<rparr>"
  if "s7 = polls (Suc b)
        (stop_read_mode w' p_ul_buf ul_size p_ul_data (polls (Suc a) (start_read_mode w s)))"
  unfolding that second_wait_state by (simp add: write_FMR_def read_FMR_def)

lemma read_sequence_Some:
  assumes "p_ul_buf \<noteq> NULL"
    and "efc_perform_read_sequence c tr ul_cmd_st ul_cmd_sp p_ul_buf ul_size p_ul_data s
           = Some (rc, s')"
  shows "\<exists>a b. \<not> frdy c (tr (fsr_reads s + a)) \<and> (\<forall>k<a. frdy c (tr (fsr_reads s + k)))
           \<and> frdy c (tr (fsr_reads s + Suc a + b))
           \<and> (\<forall>k<b. \<not> frdy c (tr (fsr_reads s + Suc a + k)))
           \<and> rc = EFC_RC_OK
           \<and> s' = \<lparr> EEFC_FMR = (EEFC_FMR s OR push_bit 16 1) AND NOT (push_bit 16 1),
                    EEFC_FCR = EEFC_FCR_FKEY_PASSWD c OR EEFC_FCR_FARG c 0
                                 OR EEFC_FCR_FCMD c ul_cmd_sp,
                    fsr_reads = fsr_reads s + Suc a + Suc b,
                    accesses = (accesses s
                      @ [Rd FMR, Wr FMR (EEFC_FMR s OR push_bit 16 1),
                         Wr FCR (EEFC_FCR_FKEY_PASSWD c OR EEFC_FCR_FARG c 0
                                  OR EEFC_FCR_FCMD c ul_cmd_st)])
                      @ replicate (Suc a) (Rd FSR)
                      @ copy_events p_ul_buf p_ul_data ul_size 0 (mem s)
                      @ [Wr FCR (EEFC_FCR_FKEY_PASSWD c OR EEFC_FCR_FARG c 0
                                  OR EEFC_FCR_FCMD c ul_cmd_sp)]
                      @ replicate (Suc b) (Rd FSR)
                      @ [Rd FMR, Wr FMR ((EEFC_FMR s OR push_bit 16 1) AND NOT (push_bit 16 1))],
                    mem = copy_mem p_ul_buf p_ul_data ul_size 0 (mem s) \<rparr>"
proof -
  let ?w = "EEFC_FCR_FKEY_PASSWD c OR EEFC_FCR_FARG c 0 OR EEFC_FCR_FCMD c ul_cmd_st"
  let ?w' = "EEFC_FCR_FKEY_PASSWD c OR EEFC_FCR_FARG c 0 OR EEFC_FCR_FCMD c ul_cmd_sp"
  let ?s3 = "start_read_mode ?w s"
  from assms obtain v4 s4 where falls: "wait_frdy_falls c tr ?s3 = Some (v4, s4)"
    by (auto simp: read_sequence_unfold split: option.splits)
  let ?s6 = "stop_read_mode ?w' p_ul_buf ul_size p_ul_data s4"
  from assms falls obtain v7 s7 where rises: "wait_frdy_rises c tr ?s6 = Some (v7, s7)"
    and result: "rc = EFC_RC_OK"
      "s' = write_FMR (EEFC_FMR s7 AND NOT (push_bit 16 1)) (snd (read_FMR s7))"
    by (auto simp: read_sequence_unfold split: option.splits)
  from wait_frdy_falls_Some [OF falls] obtain a where
    a: "\<not> frdy c (tr (fsr_reads s + a))" "\<forall>k<a. frdy c (tr (fsr_reads s + k))"
       "s4 = polls (Suc a) ?s3"
    by (auto simp: fsr_reads_start_read_mode)
  have reads6: "fsr_reads ?s6 = fsr_reads s + Suc a"
    by (simp add: a(3) fsr_reads_stop_read_mode fsr_reads_polls fsr_reads_start_read_mode)
  from wait_frdy_rises_Some [OF rises] obtain b where
    b: "frdy c (tr (fsr_reads s + Suc a + b))"
       "\<forall>k<b. \<not> frdy c (tr (fsr_reads s + Suc a + k))"
       "s7 = polls (Suc b) ?s6"
    unfolding reads6 by auto
  from b(3) a(3) have "s7 = polls (Suc b)
        (stop_read_mode ?w' p_ul_buf ul_size p_ul_data (polls (Suc a) (start_read_mode ?w s)))"
    by simp
  from final_state [OF this] result(2)
  have "s' = \<lparr> EEFC_FMR = (EEFC_FMR s OR push_bit 16 1) AND NOT (push_bit 16 1),
                    EEFC_FCR = EEFC_FCR_FKEY_PASSWD c OR EEFC_FCR_FARG c 0
                                 OR EEFC_FCR_FCMD c ul_cmd_sp,
                    fsr_reads = fsr_reads s + Suc a + Suc b,
                    accesses = (accesses s
                      @ [Rd FMR, Wr FMR (EEFC_FMR s OR push_bit 16 1),
                         Wr FCR (EEFC_FCR_FKEY_PASSWD c OR EEFC_FCR_FARG c 0
                                  OR EEFC_FCR_FCMD c ul_cmd_st)])
                      @ replicate (Suc a) (Rd FSR)
                      @ copy_events p_ul_buf p_ul_data ul_size 0 (mem s)
                      @ [Wr FCR (EEFC_FCR_FKEY_PASSWD c OR EEFC_FCR_FARG c 0
                                  OR EEFC_FCR_FCMD c ul_cmd_sp)]
                      @ replicate (Suc b) (Rd FSR)
                      @ [Rd FMR, Wr FMR ((EEFC_FMR s OR push_bit 16 1) AND NOT (push_bit 16 1))],
                    mem = copy_mem p_ul_buf p_ul_data ul_size 0 (mem s) \<rparr>"
    by simp
  with a(1,2) b(1,2) result(1) show ?thesis by blast
qed


lemma read_sequence_blocked_first:
  assumes "p_ul_buf \<noteq> NULL" and "\<forall>k<n. frdy c (tr (fsr_reads s + k))"
  shows "efc_perform_read_sequence_upto n c tr ul_cmd_st ul_cmd_sp p_ul_buf ul_size p_ul_data s
           = Polling (polls n (start_read_mode (EEFC_FCR_FKEY_PASSWD c OR EEFC_FCR_FARG c 0
                                                 OR EEFC_FCR_FCMD c ul_cmd_st) s))"
  using assms
  by (simp add: read_sequence_upto_unfold wait_frdy_falls_upto_polling fsr_reads_start_read_mode)

lemma read_sequence_blocked_second:
  assumes "p_ul_buf \<noteq> NULL"
    and "\<not> frdy c (tr (fsr_reads s + a))" and "\<forall>k<a. frdy c (tr (fsr_reads s + k))"
    and "a < n" and "\<forall>k<n. \<not> frdy c (tr (fsr_reads s + Suc a + k))"
  shows "efc_perform_read_sequence_upto n c tr ul_cmd_st ul_cmd_sp p_ul_buf ul_size p_ul_data s
           = Polling (polls n (stop_read_mode (EEFC_FCR_FKEY_PASSWD c OR EEFC_FCR_FARG c 0
                                                OR EEFC_FCR_FCMD c ul_cmd_sp)
                                 p_ul_buf ul_size p_ul_data
                                 (polls (Suc a)
                                    (start_read_mode (EEFC_FCR_FKEY_PASSWD c OR EEFC_FCR_FARG c 0
                                                       OR EEFC_FCR_FCMD c ul_cmd_st) s))))"
proof -
  let ?s3 = "start_read_mode (EEFC_FCR_FKEY_PASSWD c OR EEFC_FCR_FARG c 0
                               OR EEFC_FCR_FCMD c ul_cmd_st) s"
  let ?s6 = "stop_read_mode (EEFC_FCR_FKEY_PASSWD c OR EEFC_FCR_FARG c 0
                              OR EEFC_FCR_FCMD c ul_cmd_sp) p_ul_buf ul_size p_ul_data
               (polls (Suc a) ?s3)"
  have 1: "wait_frdy_falls_upto n c tr ?s3 = Done (tr (fsr_reads ?s3 + a), polls (Suc a) ?s3)"
    by (rule wait_frdy_falls_upto_exit) (simp_all add: fsr_reads_start_read_mode assms)
  have "\<forall>k<n. \<not> frdy c (tr (fsr_reads ?s6 + k))"
    using assms(5)
    by (simp add: fsr_reads_stop_read_mode fsr_reads_polls fsr_reads_start_read_mode)
  then have 2: "wait_frdy_rises_upto n c tr ?s6 = Polling (polls n ?s6)"
    by (rule wait_frdy_rises_upto_polling)
  from 1 2 assms(1) show ?thesis by (simp add: read_sequence_upto_unfold)
qed

lemma read_sequence_blocked_second_forever:
  assumes "p_ul_buf \<noteq> NULL"
    and "\<not> frdy c (tr (fsr_reads s + a))" and "\<forall>k<a. frdy c (tr (fsr_reads s + k))"
    and "\<forall>k. \<not> frdy c (tr (fsr_reads s + Suc a + k))"
  shows "efc_perform_read_sequence c tr ul_cmd_st ul_cmd_sp p_ul_buf ul_size p_ul_data s = None"
proof -
  let ?s3 = "start_read_mode (EEFC_FCR_FKEY_PASSWD c OR EEFC_FCR_FARG c 0
                               OR EEFC_FCR_FCMD c ul_cmd_st) s"
  let ?s6 = "stop_read_mode (EEFC_FCR_FKEY_PASSWD c OR EEFC_FCR_FARG c 0
                              OR EEFC_FCR_FCMD c ul_cmd_sp) p_ul_buf ul_size p_ul_data
               (polls (Suc a) ?s3)"
  have 1: "wait_frdy_falls c tr ?s3 = Some (tr (fsr_reads ?s3 + a), polls (Suc a) ?s3)"
    by (rule wait_frdy_falls_exit) (simp_all add: fsr_reads_start_read_mode assms)
  have "\<forall>k. \<not> frdy c (tr (fsr_reads ?s6 + k))"
    using assms(4)
    by (simp add: fsr_reads_stop_read_mode fsr_reads_polls fsr_reads_start_read_mode)
  then have 2: "wait_frdy_rises c tr ?s6 = None"
    by (rule wait_frdy_rises_stuck)
  from 1 2 assms(1) show ?thesis by (simp add: read_sequence_unfold)
qed

lemma read_sequence_blocked_first_forever:
  assumes "p_ul_buf \<noteq> NULL" and "\<forall>k. frdy c (tr (fsr_reads s + k))"
  shows "efc_perform_read_sequence c tr ul_cmd_st ul_cmd_sp p_ul_buf ul_size p_ul_data s = None"
  using assms
  by (simp add: read_sequence_unfold wait_frdy_falls_stuck fsr_reads_start_read_mode)

lemma read_sequence_exit:
  assumes "p_ul_buf \<noteq> NULL"
    and "\<not> frdy c (tr (fsr_reads s + a))" and "\<forall>k<a. frdy c (tr (fsr_reads s + k))"
    and "frdy c (tr (fsr_reads s + Suc a + b))"
    and "\<forall>k<b. \<not> frdy c (tr (fsr_reads s + Suc a + k))"
  shows "efc_perform_read_sequence c tr ul_cmd_st ul_cmd_sp p_ul_buf ul_size p_ul_data s
           = Some (EFC_RC_OK,
               \<lparr> EEFC_FMR = (EEFC_FMR s OR push_bit 16 1) AND NOT (push_bit 16 1),
                 EEFC_FCR = EEFC_FCR_FKEY_PASSWD c OR EEFC_FCR_FARG c 0
                              OR EEFC_FCR_FCMD c ul_cmd_sp,
                 fsr_reads = fsr_reads s + Suc a + Suc b,
                 accesses = (accesses s @ [Rd FMR, Wr FMR (EEFC_FMR s OR push_bit 16 1),
                               Wr FCR (EEFC_FCR_FKEY_PASSWD c OR EEFC_FCR_FARG c 0
                                        OR EEFC_FCR_FCMD c ul_cmd_st)])
                   @ replicate (Suc a) (Rd FSR)
                   @ copy_events p_ul_buf p_ul_data ul_size 0 (mem s)
                   @ [Wr FCR (EEFC_FCR_FKEY_PASSWD c OR EEFC_FCR_FARG c 0
                               OR EEFC_FCR_FCMD c ul_cmd_sp)]
                   @ replicate (Suc b) (Rd FSR)
                   @ [Rd FMR, Wr FMR ((EEFC_FMR s OR push_bit 16 1) AND NOT (push_bit 16 1))],
                 mem = copy_mem p_ul_buf p_ul_data ul_size 0 (mem s) \<rparr>)"
    and "a < n \<Longrightarrow> b < n \<Longrightarrow>
         efc_perform_read_sequence_upto n c tr ul_cmd_st ul_cmd_sp p_ul_buf ul_size p_ul_data s
           = Done (EFC_RC_OK,
               \<lparr> EEFC_FMR = (EEFC_FMR s OR push_bit 16 1) AND NOT (push_bit 16 1),
                 EEFC_FCR = EEFC_FCR_FKEY_PASSWD c OR EEFC_FCR_FARG c 0
                              OR EEFC_FCR_FCMD c ul_cmd_sp,
                 fsr_reads = fsr_reads s + Suc a + Suc b,
                 accesses = (accesses s @ [Rd FMR, Wr FMR (EEFC_FMR s OR push_bit 16 1),
                               Wr FCR (EEFC_FCR_FKEY_PASSWD c OR EEFC_FCR_FARG c 0
                                        OR EEFC_FCR_FCMD c ul_cmd_st)])
                   @ replicate (Suc a) (Rd FSR)
                   @ copy_events p_ul_buf p_ul_data ul_size 0 (mem s)
                   @ [Wr FCR (EEFC_FCR_FKEY_PASSWD c OR EEFC_FCR_FARG c 0
                               OR EEFC_FCR_FCMD c ul_cmd_sp)]
                   @ replicate (Suc b) (Rd FSR)
                   @ [Rd FMR, Wr FMR ((EEFC_FMR s OR push_bit 16 1) AND NOT (push_bit 16 1))],
                 mem = copy_mem p_ul_buf p_ul_data ul_size 0 (mem s) \<rparr>)"
proof -
  let ?w = "EEFC_FCR_FKEY_PASSWD c OR EEFC_FCR_FARG c 0 OR EEFC_FCR_FCMD c ul_cmd_st"
  let ?w' = "EEFC_FCR_FKEY_PASSWD c OR EEFC_FCR_FARG c 0 OR EEFC_FCR_FCMD c ul_cmd_sp"
  let ?s3 = "start_read_mode ?w s"
  let ?s6 = "stop_read_mode ?w' p_ul_buf ul_size p_ul_data (polls (Suc a) ?s3)"
  let ?s7 = "polls (Suc b) ?s6"
  have r6: "fsr_reads ?s6 = fsr_reads s + Suc a"
    by (simp add: fsr_reads_stop_read_mode fsr_reads_polls fsr_reads_start_read_mode)
  have 1: "wait_frdy_falls c tr ?s3 = Some (tr (fsr_reads ?s3 + a), polls (Suc a) ?s3)"
    by (rule wait_frdy_falls_exit) (simp_all add: fsr_reads_start_read_mode assms)
  have c4: "frdy c (tr (fsr_reads ?s6 + b))"
    using assms(4) by (simp add: r6)
  have c5: "\<forall>k<b. \<not> frdy c (tr (fsr_reads ?s6 + k))"
    using assms(5) by (simp add: r6)
  have 2: "wait_frdy_rises c tr ?s6 = Some (tr (fsr_reads ?s6 + b), ?s7)"
    by (rule wait_frdy_rises_exit [OF c4 c5])
  have fin: "write_FMR (EEFC_FMR ?s7 AND NOT (push_bit 16 1)) (snd (read_FMR ?s7))
     = \<lparr> EEFC_FMR = (EEFC_FMR s OR push_bit 16 1) AND NOT (push_bit 16 1), EEFC_FCR = ?w',
         fsr_reads = fsr_reads s + Suc a + Suc b,
         accesses = (accesses s @ [Rd FMR, Wr FMR (EEFC_FMR s OR push_bit 16 1), Wr FCR ?w])
                      @ replicate (Suc a) (Rd FSR)
                      @ copy_events p_ul_buf p_ul_data ul_size 0 (mem s)
                      @ [Wr FCR ?w'] @ replicate (Suc b) (Rd FSR)
                      @ [Rd FMR, Wr FMR ((EEFC_FMR s OR push_bit 16 1) AND NOT (push_bit 16 1))],
         mem = copy_mem p_ul_buf p_ul_data ul_size 0 (mem s) \<rparr>"
    by (rule final_state) (rule refl)
  from 1 2 assms(1)
  have "efc_perform_read_sequence c tr ul_cmd_st ul_cmd_sp p_ul_buf ul_size p_ul_data s
          = Some (EFC_RC_OK, write_FMR (EEFC_FMR ?s7 AND NOT (push_bit 16 1)) (snd (read_FMR ?s7)))"
    by (simp add: read_sequence_unfold)
  then show "efc_perform_read_sequence c tr ul_cmd_st ul_cmd_sp p_ul_buf ul_size
      p_ul_data s = Some (EFC_RC_OK,
               \<lparr> EEFC_FMR = (EEFC_FMR s OR push_bit 16 1) AND NOT (push_bit 16 1),
                 EEFC_FCR = ?w',
                 fsr_reads = fsr_reads s + Suc a + Suc b,
                 accesses = (accesses s @ [Rd FMR, Wr FMR (EEFC_FMR s OR push_bit 16 1),
                               Wr FCR ?w])
                   @ replicate (Suc a) (Rd FSR)
                   @ copy_events p_ul_buf p_ul_data ul_size 0 (mem s)
                   @ [Wr FCR ?w'] @ replicate (Suc b) (Rd FSR)
                   @ [Rd FMR, Wr FMR ((EEFC_FMR s OR push_bit 16 1) AND NOT (push_bit 16 1))],
                 mem = copy_mem p_ul_buf p_ul_data ul_size 0 (mem s) \<rparr>)"
    unfolding fin .
  assume n: "a < n" "b < n"
  have 3: "wait_frdy_falls_upto n c tr ?s3 = Done (tr (fsr_reads ?s3 + a), polls (Suc a) ?s3)"
    by (rule wait_frdy_falls_upto_exit) (simp_all add: fsr_reads_start_read_mode assms n)
  have 4: "wait_frdy_rises_upto n c tr ?s6 = Done (tr (fsr_reads ?s6 + b), ?s7)"
    by (rule wait_frdy_rises_upto_exit [OF c4 c5 n(2)])
  from 3 4 assms(1)
  have "efc_perform_read_sequence_upto n c tr ul_cmd_st ul_cmd_sp p_ul_buf ul_size p_ul_data s
          = Done (EFC_RC_OK, write_FMR (EEFC_FMR ?s7 AND NOT (push_bit 16 1)) (snd (read_FMR ?s7)))"
    by (simp add: read_sequence_upto_unfold)
  then show "efc_perform_read_sequence_upto n c tr ul_cmd_st ul_cmd_sp p_ul_buf
      ul_size p_ul_data s = Done (EFC_RC_OK,
               \<lparr> EEFC_FMR = (EEFC_FMR s OR push_bit 16 1) AND NOT (push_bit 16 1),
                 EEFC_FCR = ?w',
                 fsr_reads = fsr_reads s + Suc a + Suc b,
                 accesses = (accesses s @ [Rd FMR, Wr FMR (EEFC_FMR s OR push_bit 16 1),
                               Wr FCR ?w])
                   @ replicate (Suc a) (Rd FSR)
                   @ copy_events p_ul_buf p_ul_data ul_size 0 (mem s)
                   @ [Wr FCR ?w'] @ replicate (Suc b) (Rd FSR)
                   @ [Rd FMR, Wr FMR ((EEFC_FMR s OR push_bit 16 1) AND NOT (push_bit 16 1))],
                 mem = copy_mem p_ul_buf p_ul_data ul_size 0 (mem s) \<rparr>)"
    unfolding fin .
qed

lemma read_sequence_upto_Done:
  assumes "efc_perform_read_sequence_upto n c tr ul_cmd_st ul_cmd_sp p_ul_buf ul_size p_ul_data s
             = Done r"
  shows "efc_perform_read_sequence c tr ul_cmd_st ul_cmd_sp p_ul_buf ul_size p_ul_data s = Some r"
proof (cases "p_ul_buf = NULL")
  case True
  with assms show ?thesis
    by (simp add: efc_perform_read_sequence_upto_def efc_perform_read_sequence_def)
next
  case False
  let ?s3 = "start_read_mode (EEFC_FCR_FKEY_PASSWD c OR EEFC_FCR_FARG c 0
                               OR EEFC_FCR_FCMD c ul_cmd_st) s"
  from assms False obtain v4 s4 where
    1: "wait_frdy_falls_upto n c tr ?s3 = Done (v4, s4)"
    by (auto simp: read_sequence_upto_unfold split: progress.splits)
  let ?s6 = "stop_read_mode (EEFC_FCR_FKEY_PASSWD c OR EEFC_FCR_FARG c 0
                              OR EEFC_FCR_FCMD c ul_cmd_sp) p_ul_buf ul_size p_ul_data s4"
  from assms False 1 obtain v7 s7 where
    2: "wait_frdy_rises_upto n c tr ?s6 = Done (v7, s7)"
    and r: "r = (EFC_RC_OK, write_FMR (EEFC_FMR s7 AND NOT (push_bit 16 1)) (snd (read_FMR s7)))"
    by (auto simp: read_sequence_upto_unfold split: progress.splits)
  from wait_frdy_falls_upto_Done [OF 1] wait_frdy_rises_upto_Done [OF 2] r False
  show ?thesis by (simp add: read_sequence_unfold)
qed

section \<open>Properties of efc\_perform\_fcr\<close>

lemma fsr_reads_write_FCR: "fsr_reads (write_FCR v s) = fsr_reads s"
  by (simp add: write_FCR_def)

lemma perform_fcr_exit:
  assumes "frdy c (tr (fsr_reads s + n))" and "\<forall>k<n. \<not> frdy c (tr (fsr_reads s + k))"
  shows "efc_perform_fcr c tr ul_fcr s
           = Some (tr (fsr_reads s + n) AND EEFC_ERROR_FLAGS c, polls (Suc n) (write_FCR ul_fcr s))"
proof -
  have "wait_frdy_rises c tr (write_FCR ul_fcr s)
          = Some (tr (fsr_reads (write_FCR ul_fcr s) + n), polls (Suc n) (write_FCR ul_fcr s))"
    by (rule wait_frdy_rises_exit) (simp_all add: fsr_reads_write_FCR assms)
  then show ?thesis by (simp add: efc_perform_fcr_def fsr_reads_write_FCR)
qed

lemma perform_fcr_Some:
  assumes "efc_perform_fcr c tr ul_fcr s = Some (r, s')"
  shows "\<exists>n. frdy c (tr (fsr_reads s + n)) \<and> (\<forall>k<n. \<not> frdy c (tr (fsr_reads s + k)))
            \<and> r = tr (fsr_reads s + n) AND EEFC_ERROR_FLAGS c
            \<and> s' = polls (Suc n) (write_FCR ul_fcr s)"
proof -
  from assms obtain v where
    w: "wait_frdy_rises c tr (write_FCR ul_fcr s) = Some (v, s')"
    and r: "r = v AND EEFC_ERROR_FLAGS c"
    by (auto simp: efc_perform_fcr_def split: option.splits)
  from wait_frdy_rises_Some [OF w] r show ?thesis
    by (auto simp: fsr_reads_write_FCR)
qed

lemma perform_fcr_stuck:
  "(\<forall>k. \<not> frdy c (tr (fsr_reads s + k))) \<Longrightarrow> efc_perform_fcr c tr ul_fcr s = None"
  by (simp add: efc_perform_fcr_def wait_frdy_rises_stuck fsr_reads_write_FCR)

section \<open>Concrete runs\<close>

lemma spec_fields:
  "EEFC_FSR_FRDY spec_component_efc = 1"
  "EEFC_FSR_FCMDE spec_component_efc = 2"
  "EEFC_FSR_FLOCKE spec_component_efc = 4"
  "EEFC_FSR_FLERR spec_component_efc = 8"
  "EEFC_FCR_FKEY_PASSWD spec_component_efc = 0x5A000000"
  "EEFC_FCR_FARG spec_component_efc 0 = 0"
  "EEFC_FCR_FCMD spec_component_efc v = v AND 0xFF"
  by (simp_all add: spec_component_efc_def EEFC_FCR_FCMD_def and.commute)

lemma frdy_spec: "frdy spec_component_efc v = (v AND 1 = 1)"
  by (simp add: frdy_def spec_fields)

lemma command_word_fields:
  fixes v :: uint32_t
  shows "drop_bit 24 (0x5A000000 OR 0 OR (v AND 0xFF)) = FWP_KEY"
    and "take_bit 16 (drop_bit 8 (0x5A000000 OR 0 OR (v AND 0xFF))) = 0"
    and "take_bit 8 (0x5A000000 OR 0 OR (v AND 0xFF)) = take_bit 8 v"
    and "v \<le> 0xFF \<Longrightarrow> take_bit 8 (0x5A000000 OR 0 OR (v AND 0xFF)) = v"
proof -
  have m: "(0xFF :: uint32_t) = mask 8" by (simp add: mask_eq_exp_minus_1)
  show "drop_bit 24 (0x5A000000 OR 0 OR (v AND 0xFF)) = FWP_KEY"
    by (simp add: FWP_KEY_def)
  show "take_bit 16 (drop_bit 8 (0x5A000000 OR 0 OR (v AND 0xFF))) = 0"
    by simp
  show low: "take_bit 8 (0x5A000000 OR 0 OR (v AND 0xFF)) = take_bit 8 v"
    by (simp add: m flip: take_bit_eq_mask)
  show "take_bit 8 (0x5A000000 OR 0 OR (v AND 0xFF)) = v" if "v \<le> 0xFF"
  proof -
    from that have "v < 2 ^ 8" by unat_arith
    then have "v AND mask 8 = v" by (rule less_mask_eq)
    then have "take_bit 8 v = v" by (simp only: take_bit_eq_mask)
    with low show ?thesis by simp
  qed
qed

lemma idle_fields:
  "EEFC_FMR idle_state = 0" "EEFC_FCR idle_state = 0" "fsr_reads idle_state = 0"
  "accesses idle_state = []" "mem idle_state = id"
  by (simp_all add: idle_state_def)

lemma ready_run_stuck: "frdy spec_component_efc (ready_trace k)"
  by (simp add: frdy_spec ready_trace_def)

lemma edges_run:
  "efc_perform_read_sequence spec_component_efc edges_trace 0x0E 0x0F 0x20000000 4 0x00400000
     idle_state
   = Some (0, \<lparr> EEFC_FMR = 0, EEFC_FCR = 0x5A00000F, fsr_reads = 6,
        accesses = [Rd FMR, Wr FMR 0x10000, Wr FCR 0x5A00000E, Rd FSR, Rd FSR, Rd FSR,
                    Ld 0x00400000, St 0x20000000 0x00400000, Ld 0x00400004, St 0x20000004 0x00400004,
                    Ld 0x00400008, St 0x20000008 0x00400008, Ld 0x0040000C, St 0x2000000C 0x0040000C,
                    Wr FCR 0x5A00000F, Rd FSR, Rd FSR, Rd FSR, Rd FMR, Wr FMR 0],
        mem = id(0x20000000 := 0x00400000, 0x20000004 := 0x00400004, 0x20000008 := 0x00400008,
                 0x2000000C := 0x0040000C) \<rparr>)"
  by (simp add: efc_perform_read_sequence_def NULL_def EFC_RC_OK_def spec_fields read_FMR_def
        write_FMR_def write_FCR_def Let_def wait_frdy_falls_step wait_frdy_rises_step frdy_spec
        edges_trace_def polls_def idle_state_def copy_loop.simps load_def store_def)




lemma ready_fcr_run:
  "efc_perform_fcr spec_component_efc ready_trace 0x5A000001 idle_state
     = Some (0, \<lparr> EEFC_FMR = 0, EEFC_FCR = 0x5A000001, fsr_reads = 1,
                  accesses = [Wr FCR 0x5A000001, Rd FSR], mem = id \<rparr>)"
  by (simp add: efc_perform_fcr_def write_FCR_def wait_frdy_rises_step frdy_spec ready_trace_def
        polls_def idle_state_def EEFC_ERROR_FLAGS_def spec_fields)

section \<open>Claims about efc\_perform\_read\_sequence\<close>

text \<open>
  C1. The two waits of \<open>efc_perform_read_sequence\<close> are opposite, and the copy lies
  between them. For a call with a buffer, by the polls of the Status register that it
  makes (\<open>frdy\<close> says that a status shows Ready set; \<open>run\<close> is the call, \<open>run_upto n\<close>
  the call observed with at most \<open>n\<close> polls in each loop):

  \<^item> As long as every poll has shown Ready set, the call is in its first loop
    (\<open>in_first_wait\<close>): it has set bit 16 of the Mode register and written the start
    command, and since then has only read the Status register; the memory is as at the
    call, nothing is loaded or stored, and the stop command is not written. If Ready is
    set at every poll, this is so after any number of polls, and the call never returns:
    it never reaches the copy.
  \<^item> The first loop ends at the first poll \<open>a\<close> that shows Ready clear. The call then
    runs the copy loop (\<open>copied\<close>), writes the stop command, and is in its second loop
    (\<open>in_second_wait\<close>) as long as every further poll has shown Ready clear; if Ready
    stays clear it never returns.
  \<^item> The second loop ends at the first further poll \<open>b\<close> that shows Ready set, and the
    call returns \<open>EFC_RC_OK\<close> in the state \<open>returned\<close>, having made its accesses in
    this order: the read and write of Mode that set bit 16, the start command,
    \<open>a + 1\<close> reads of Status, the loads and stores of the copy, the stop command,
    \<open>b + 1\<close> reads of Status, the read and write of Mode that clear bit 16.
  \<^item> Whatever the observed call returns, the call returns.
\<close>

theorem read_sequence_edge_order:
  assumes "p_ul_buf \<noteq> NULL"
  shows
    "let w_st = EEFC_FCR_FKEY_PASSWD c OR EEFC_FCR_FARG c 0 OR EEFC_FCR_FCMD c ul_cmd_st;
         w_sp = EEFC_FCR_FKEY_PASSWD c OR EEFC_FCR_FARG c 0 OR EEFC_FCR_FCMD c ul_cmd_sp;
         started = accesses s @ [Rd FMR, Wr FMR (EEFC_FMR s OR push_bit 16 1), Wr FCR w_st];
         in_first_wait = (\<lambda>n.
           \<lparr> EEFC_FMR = EEFC_FMR s OR push_bit 16 1, EEFC_FCR = w_st,
             fsr_reads = fsr_reads s + n,
             accesses = started @ replicate n (Rd FSR),
             mem = mem s \<rparr>);
         copied = (\<lambda>a. copy_loop p_ul_buf p_ul_data ul_size 0 (in_first_wait (Suc a)));
         in_second_wait = (\<lambda>a n.
           \<lparr> EEFC_FMR = EEFC_FMR s OR push_bit 16 1, EEFC_FCR = w_sp,
             fsr_reads = fsr_reads s + Suc a + n,
             accesses = accesses (copied a) @ [Wr FCR w_sp] @ replicate n (Rd FSR),
             mem = mem (copied a) \<rparr>);
         returned = (\<lambda>a b.
           \<lparr> EEFC_FMR = (EEFC_FMR s OR push_bit 16 1) AND NOT (push_bit 16 1), EEFC_FCR = w_sp,
             fsr_reads = fsr_reads s + Suc a + Suc b,
             accesses = accesses (copied a) @ [Wr FCR w_sp] @ replicate (Suc b) (Rd FSR)
                          @ [Rd FMR, Wr FMR ((EEFC_FMR s OR push_bit 16 1)
                                              AND NOT (push_bit 16 1))],
             mem = mem (copied a) \<rparr>);
         run = efc_perform_read_sequence c tr ul_cmd_st ul_cmd_sp p_ul_buf ul_size p_ul_data s;
         run_upto = (\<lambda>n. efc_perform_read_sequence_upto n c tr ul_cmd_st ul_cmd_sp p_ul_buf
                             ul_size p_ul_data s)
     in ((\<forall>k. frdy c (tr (fsr_reads s + k))) \<longrightarrow>
            run = None \<and> (\<forall>n. run_upto n = Polling (in_first_wait n)))
      \<and> (\<forall>a. \<not> frdy c (tr (fsr_reads s + a)) \<and> (\<forall>k<a. frdy c (tr (fsr_reads s + k))) \<longrightarrow>
            (\<forall>n\<le>a. run_upto n = Polling (in_first_wait n))
          \<and> ((\<forall>k. \<not> frdy c (tr (fsr_reads s + Suc a + k))) \<longrightarrow>
                run = None \<and> (\<forall>n>a. run_upto n = Polling (in_second_wait a n)))
          \<and> (\<forall>b. frdy c (tr (fsr_reads s + Suc a + b))
                  \<and> (\<forall>k<b. \<not> frdy c (tr (fsr_reads s + Suc a + k))) \<longrightarrow>
                run = Some (EFC_RC_OK, returned a b)
              \<and> (\<forall>n. a < n \<and> n \<le> b \<longrightarrow> run_upto n = Polling (in_second_wait a n))
              \<and> (\<forall>n. a < n \<and> b < n \<longrightarrow> run_upto n = Done (EFC_RC_OK, returned a b))))
      \<and> (\<forall>n r. run_upto n = Done r \<longrightarrow> run = Some r)"
proof -
  let ?w = "EEFC_FCR_FKEY_PASSWD c OR EEFC_FCR_FARG c 0 OR EEFC_FCR_FCMD c ul_cmd_st"
  let ?w' = "EEFC_FCR_FKEY_PASSWD c OR EEFC_FCR_FARG c 0 OR EEFC_FCR_FCMD c ul_cmd_sp"
  let ?run = "efc_perform_read_sequence c tr ul_cmd_st ul_cmd_sp p_ul_buf ul_size p_ul_data s"
  let ?upto = "\<lambda>n. efc_perform_read_sequence_upto n c tr ul_cmd_st ul_cmd_sp p_ul_buf ul_size
                      p_ul_data s"
  let ?first = "\<lambda>n. polls n (start_read_mode ?w s)"
  let ?second = "\<lambda>a n. polls n (stop_read_mode ?w' p_ul_buf ul_size p_ul_data
                                    (polls (Suc a) (start_read_mode ?w s)))"
  let ?F = "\<lambda>n. \<lparr> EEFC_FMR = EEFC_FMR s OR push_bit 16 1, EEFC_FCR = ?w,
             fsr_reads = fsr_reads s + n,
             accesses = (accesses s @ [Rd FMR, Wr FMR (EEFC_FMR s OR push_bit 16 1), Wr FCR ?w])
                          @ replicate n (Rd FSR),
             mem = mem s \<rparr>"
  let ?C = "\<lambda>a. copy_loop p_ul_buf p_ul_data ul_size 0 (?F (Suc a))"
  let ?S = "\<lambda>a n. \<lparr> EEFC_FMR = EEFC_FMR s OR push_bit 16 1, EEFC_FCR = ?w',
             fsr_reads = fsr_reads s + Suc a + n,
             accesses = accesses (?C a) @ [Wr FCR ?w'] @ replicate n (Rd FSR),
             mem = mem (?C a) \<rparr>"
  let ?R = "\<lambda>a b. \<lparr> EEFC_FMR = (EEFC_FMR s OR push_bit 16 1) AND NOT (push_bit 16 1),
             EEFC_FCR = ?w',
             fsr_reads = fsr_reads s + Suc a + Suc b,
             accesses = accesses (?C a) @ [Wr FCR ?w'] @ replicate (Suc b) (Rd FSR)
                          @ [Rd FMR, Wr FMR ((EEFC_FMR s OR push_bit 16 1)
                                              AND NOT (push_bit 16 1))],
             mem = mem (?C a) \<rparr>"
  have F: "?first n = ?F n" for n by (rule first_wait_state)
  have S: "?second a n = ?S a n" for a n
    unfolding second_wait_state by (simp add: copy_loop_eq)
  have R: "write_FMR (EEFC_FMR (?second a (Suc b)) AND NOT (push_bit 16 1))
             (snd (read_FMR (?second a (Suc b)))) = ?R a b" for a b
    unfolding final_state [OF refl] by (simp add: copy_loop_eq)
  have never_clear: "?run = None \<and> (\<forall>n. ?upto n = Polling (?F n))"
    if "\<forall>k. frdy c (tr (fsr_reads s + k))"
  proof
    show "?run = None" by (rule read_sequence_blocked_first_forever [OF assms that])
    show "\<forall>n. ?upto n = Polling (?F n)"
      unfolding F [symmetric] using read_sequence_blocked_first [OF assms] that by blast
  qed
  have before_clear: "\<forall>n\<le>a. ?upto n = Polling (?F n)"
    if "\<not> frdy c (tr (fsr_reads s + a)) \<and> (\<forall>k<a. frdy c (tr (fsr_reads s + k)))" for a
  proof (intro allI impI)
    fix n assume "n \<le> a"
    with that have "\<forall>k<n. frdy c (tr (fsr_reads s + k))" by simp
    then show "?upto n = Polling (?F n)"
      unfolding F [symmetric] by (rule read_sequence_blocked_first [OF assms])
  qed
  have never_set: "?run = None \<and> (\<forall>n>a. ?upto n = Polling (?S a n))"
    if "\<not> frdy c (tr (fsr_reads s + a)) \<and> (\<forall>k<a. frdy c (tr (fsr_reads s + k)))"
       "\<forall>k. \<not> frdy c (tr (fsr_reads s + Suc a + k))" for a
  proof
    from that have 1: "\<not> frdy c (tr (fsr_reads s + a))"
      and 2: "\<forall>k<a. frdy c (tr (fsr_reads s + k))" by simp_all
    show "?run = None" by (rule read_sequence_blocked_second_forever [OF assms 1 2 that(2)])
    show "\<forall>n>a. ?upto n = Polling (?S a n)"
      unfolding S [symmetric] using read_sequence_blocked_second [OF assms 1 2] that(2) by blast
  qed
  have returns: "?run = Some (EFC_RC_OK, ?R a b)
          \<and> (\<forall>n. a < n \<and> n \<le> b \<longrightarrow> ?upto n = Polling (?S a n))
          \<and> (\<forall>n. a < n \<and> b < n \<longrightarrow> ?upto n = Done (EFC_RC_OK, ?R a b))"
    if "\<not> frdy c (tr (fsr_reads s + a)) \<and> (\<forall>k<a. frdy c (tr (fsr_reads s + k)))"
       "frdy c (tr (fsr_reads s + Suc a + b))
          \<and> (\<forall>k<b. \<not> frdy c (tr (fsr_reads s + Suc a + k)))" for a b
  proof -
    from that have 1: "\<not> frdy c (tr (fsr_reads s + a))"
      and 2: "\<forall>k<a. frdy c (tr (fsr_reads s + k))"
      and 3: "frdy c (tr (fsr_reads s + Suc a + b))"
      and 4: "\<forall>k<b. \<not> frdy c (tr (fsr_reads s + Suc a + k))" by simp_all
    have r: "?run = Some (EFC_RC_OK, ?R a b)"
      unfolding R [symmetric] final_state [OF refl]
      by (rule read_sequence_exit(1) [OF assms 1 2 3 4])
    have p: "?upto n = Polling (?S a n)" if "a < n \<and> n \<le> b" for n
    proof -
      from that 4 have "a < n" and "\<forall>k<n. \<not> frdy c (tr (fsr_reads s + Suc a + k))"
        by simp_all
      then show ?thesis
        unfolding S [symmetric] by (rule read_sequence_blocked_second [OF assms 1 2])
    qed
    have d: "?upto n = Done (EFC_RC_OK, ?R a b)" if "a < n \<and> b < n" for n
    proof -
      from that have "a < n" "b < n" by simp_all
      then show ?thesis
        unfolding R [symmetric] final_state [OF refl]
        by (rule read_sequence_exit(2) [OF assms 1 2 3 4])
    qed
    from r p d show ?thesis by blast
  qed
  have bridge: "\<forall>n r. ?upto n = Done r \<longrightarrow> ?run = Some r"
    using read_sequence_upto_Done by blast
  show ?thesis
    unfolding Let_def
    apply (intro conjI allI impI)
           apply (rule never_clear [THEN conjunct1], assumption)
          apply (rule never_clear [THEN conjunct2, THEN spec], assumption)
         apply (rule before_clear [THEN spec, THEN mp], assumption, assumption)
        apply (rule never_set [THEN conjunct1], assumption, assumption)
       apply (rule never_set [THEN conjunct2, THEN spec, THEN mp], assumption, assumption,
        assumption)
      apply (rule returns [THEN conjunct1], assumption, assumption)
     apply (rule returns [THEN conjunct2, THEN conjunct1, THEN spec, THEN mp], assumption,
        assumption, assumption)
     apply (rule returns [THEN conjunct2, THEN conjunct2, THEN spec, THEN mp], assumption,
        assumption, assumption)
    apply (rule bridge [THEN spec, THEN spec, THEN mp], assumption)
    done
qed

theorem read_sequence_edge_order_witness:
  "efc_perform_read_sequence spec_component_efc ready_trace 0x0E 0x0F 0x20000000 4 0x00400000
     idle_state = None
   \<and> efc_perform_read_sequence_upto 3 spec_component_efc ready_trace 0x0E 0x0F 0x20000000 4
       0x00400000 idle_state
     = Polling \<lparr> EEFC_FMR = 0x10000, EEFC_FCR = 0x5A00000E, fsr_reads = 3,
         accesses = [Rd FMR, Wr FMR 0x10000, Wr FCR 0x5A00000E, Rd FSR, Rd FSR, Rd FSR],
         mem = id \<rparr>
   \<and> efc_perform_read_sequence spec_component_efc never_set_trace 0x0E 0x0F 0x20000000 4
       0x00400000 idle_state = None
   \<and> efc_perform_read_sequence_upto 3 spec_component_efc never_set_trace 0x0E 0x0F 0x20000000 4
       0x00400000 idle_state
     = Polling \<lparr> EEFC_FMR = 0x10000, EEFC_FCR = 0x5A00000F, fsr_reads = 5,
         accesses = [Rd FMR, Wr FMR 0x10000, Wr FCR 0x5A00000E, Rd FSR, Rd FSR,
                    Ld 0x00400000, St 0x20000000 0x00400000, Ld 0x00400004, St 0x20000004 0x00400004,
                    Ld 0x00400008, St 0x20000008 0x00400008, Ld 0x0040000C, St 0x2000000C 0x0040000C,
                    Wr FCR 0x5A00000F, Rd FSR, Rd FSR, Rd FSR],
         mem = id(0x20000000 := 0x00400000, 0x20000004 := 0x00400004, 0x20000008 := 0x00400008,
                 0x2000000C := 0x0040000C) \<rparr>
   \<and> efc_perform_read_sequence spec_component_efc edges_trace 0x0E 0x0F 0x20000000 4
       0x00400000 idle_state
     = Some (0, \<lparr> EEFC_FMR = 0, EEFC_FCR = 0x5A00000F, fsr_reads = 6,
         accesses = [Rd FMR, Wr FMR 0x10000, Wr FCR 0x5A00000E, Rd FSR, Rd FSR, Rd FSR,
                    Ld 0x00400000, St 0x20000000 0x00400000, Ld 0x00400004, St 0x20000004 0x00400004,
                    Ld 0x00400008, St 0x20000008 0x00400008, Ld 0x0040000C, St 0x2000000C 0x0040000C,
                    Wr FCR 0x5A00000F, Rd FSR, Rd FSR, Rd FSR, Rd FMR, Wr FMR 0],
         mem = id(0x20000000 := 0x00400000, 0x20000004 := 0x00400004, 0x20000008 := 0x00400008,
                 0x2000000C := 0x0040000C) \<rparr>)
   \<and> efc_perform_read_sequence_upto 2 spec_component_efc edges_trace 0x0E 0x0F 0x20000000 4
       0x00400000 idle_state
     = Polling \<lparr> EEFC_FMR = 0x10000, EEFC_FCR = 0x5A00000E, fsr_reads = 2,
         accesses = [Rd FMR, Wr FMR 0x10000, Wr FCR 0x5A00000E, Rd FSR, Rd FSR],
         mem = id \<rparr>"
proof -
  have nn: "(0x20000000 :: uint32_t) \<noteq> NULL" by (simp add: NULL_def)
  have r: "replicate 3 (Rd FSR) = [Rd FSR, Rd FSR, Rd FSR]"
    "replicate 2 (Rd FSR) = [Rd FSR, Rd FSR]"
    by (simp_all add: numeral_3_eq_3 numeral_2_eq_2)
  note T = read_sequence_edge_order [OF nn, where c = spec_component_efc and s = idle_state
      and ul_cmd_st = "0x0E" and ul_cmd_sp = "0x0F" and ul_size = 4 and p_ul_data = "0x00400000",
      unfolded Let_def]
  have stuck: "\<forall>k. frdy spec_component_efc (ready_trace (fsr_reads idle_state + k))"
    by (simp add: ready_run_stuck)
  from T [where tr = ready_trace, THEN conjunct1, THEN mp, OF stuck]
  have 1: "efc_perform_read_sequence spec_component_efc ready_trace 0x0E 0x0F 0x20000000 4
               0x00400000 idle_state = None"
    and 2: "efc_perform_read_sequence_upto 3 spec_component_efc ready_trace 0x0E 0x0F 0x20000000
               4 0x00400000 idle_state
     = Polling \<lparr> EEFC_FMR = 0x10000, EEFC_FCR = 0x5A00000E, fsr_reads = 3,
         accesses = [Rd FMR, Wr FMR 0x10000, Wr FCR 0x5A00000E, Rd FSR, Rd FSR, Rd FSR],
         mem = id \<rparr>"
    by (simp_all add: spec_fields idle_fields r copy_loop.simps load_def store_def)
  have clear1: "\<not> frdy spec_component_efc (never_set_trace (fsr_reads idle_state + 1))
      \<and> (\<forall>k<1. frdy spec_component_efc (never_set_trace (fsr_reads idle_state + k)))"
    and never: "\<forall>k. \<not> frdy spec_component_efc (never_set_trace (fsr_reads idle_state + Suc 1 + k))"
    by (simp_all add: frdy_spec never_set_trace_def idle_fields)
  from T [where tr = never_set_trace, THEN conjunct2, THEN conjunct1, THEN spec, of 1, THEN mp,
      OF clear1,
      THEN conjunct2, THEN conjunct1, THEN mp, OF never]
  have 3: "efc_perform_read_sequence spec_component_efc never_set_trace 0x0E 0x0F 0x20000000 4
       0x00400000 idle_state = None"
    and 4: "efc_perform_read_sequence_upto 3 spec_component_efc never_set_trace 0x0E 0x0F
       0x20000000 4 0x00400000 idle_state
     = Polling \<lparr> EEFC_FMR = 0x10000, EEFC_FCR = 0x5A00000F, fsr_reads = 5,
         accesses = [Rd FMR, Wr FMR 0x10000, Wr FCR 0x5A00000E, Rd FSR, Rd FSR,
                    Ld 0x00400000, St 0x20000000 0x00400000, Ld 0x00400004, St 0x20000004 0x00400004,
                    Ld 0x00400008, St 0x20000008 0x00400008, Ld 0x0040000C, St 0x2000000C 0x0040000C,
                    Wr FCR 0x5A00000F, Rd FSR, Rd FSR, Rd FSR],
         mem = id(0x20000000 := 0x00400000, 0x20000004 := 0x00400004, 0x20000008 := 0x00400008,
                 0x2000000C := 0x0040000C) \<rparr>"
    by (simp_all add: spec_fields idle_fields r copy_loop.simps load_def store_def)
  have clear2: "\<not> frdy spec_component_efc (edges_trace (fsr_reads idle_state + 2))
      \<and> (\<forall>k<2. frdy spec_component_efc (edges_trace (fsr_reads idle_state + k)))"
    and set2: "frdy spec_component_efc (edges_trace (fsr_reads idle_state + Suc 2 + 2))
      \<and> (\<forall>k<2. \<not> frdy spec_component_efc (edges_trace (fsr_reads idle_state + Suc 2 + k)))"
    by (simp_all add: frdy_spec edges_trace_def idle_fields)
  note E = T [where tr = edges_trace, THEN conjunct2, THEN conjunct1, THEN spec, of 2, THEN mp,
      OF clear2]
  from E [THEN conjunct2, THEN conjunct2, THEN spec, of 2, THEN mp, OF set2, THEN conjunct1]
  have 5: "efc_perform_read_sequence spec_component_efc edges_trace 0x0E 0x0F 0x20000000 4
       0x00400000 idle_state
     = Some (0, \<lparr> EEFC_FMR = 0, EEFC_FCR = 0x5A00000F, fsr_reads = 6,
         accesses = [Rd FMR, Wr FMR 0x10000, Wr FCR 0x5A00000E, Rd FSR, Rd FSR, Rd FSR,
                    Ld 0x00400000, St 0x20000000 0x00400000, Ld 0x00400004, St 0x20000004 0x00400004,
                    Ld 0x00400008, St 0x20000008 0x00400008, Ld 0x0040000C, St 0x2000000C 0x0040000C,
                    Wr FCR 0x5A00000F, Rd FSR, Rd FSR, Rd FSR, Rd FMR, Wr FMR 0],
         mem = id(0x20000000 := 0x00400000, 0x20000004 := 0x00400004, 0x20000008 := 0x00400008,
                 0x2000000C := 0x0040000C) \<rparr>)"
    by (simp add: spec_fields idle_fields r EFC_RC_OK_def copy_loop.simps load_def store_def)
  from E [THEN conjunct1, THEN spec, of 2]
  have 6: "efc_perform_read_sequence_upto 2 spec_component_efc edges_trace 0x0E 0x0F 0x20000000 4
       0x00400000 idle_state
     = Polling \<lparr> EEFC_FMR = 0x10000, EEFC_FCR = 0x5A00000E, fsr_reads = 2,
         accesses = [Rd FMR, Wr FMR 0x10000, Wr FCR 0x5A00000E, Rd FSR, Rd FSR],
         mem = id \<rparr>"
    by (simp add: spec_fields idle_fields r)
  from 1 2 3 4 5 6 show ?thesis by (intro conjI)
qed




text \<open>
  C4. With a null output buffer, \<open>efc_perform_read_sequence\<close> returns
  \<open>EFC_RC_INVALID\<close>, which is 2, at once: the state it returns is the state it was
  called in, so no register was read or written (the list of accesses, the Mode and
  Command registers and the count of Status reads are those of the call) and no memory
  was written.
\<close>

theorem read_sequence_null_buffer:
  "efc_perform_read_sequence c tr ul_cmd_st ul_cmd_sp NULL ul_size p_ul_data s
     = Some (EFC_RC_INVALID, s) \<and> EFC_RC_INVALID = 2"
  by (simp add: read_sequence_null EFC_RC_INVALID_def EFC_RC_ERROR_def)

theorem read_sequence_null_buffer_witness:
  "efc_perform_read_sequence spec_component_efc ready_trace 0x0E 0x0F 0 4 0x00400000 idle_state
     = Some (2, idle_state)"
  using read_sequence_null_buffer
          [of spec_component_efc ready_trace "0x0E" "0x0F" 4 "0x00400000" idle_state]
  by (simp add: NULL_def)

text \<open>
  C5. After every call of \<open>efc_perform_read_sequence\<close> with a buffer that returns, made
  with bit 16 of the Mode register off, the bit is off again: bit 16 of the register is
  clear, which is its value of before the call, and the whole register has its value of
  before the call. In between the function has set the bit: it writes the register
  twice, first its value of before the call with bit 16 set, and last its final value.
\<close>

theorem read_sequence_mode_bit:
  assumes "p_ul_buf \<noteq> NULL"
    and "efc_perform_read_sequence c tr ul_cmd_st ul_cmd_sp p_ul_buf ul_size p_ul_data s
           = Some (rc, s')"
    and "\<not> bit (EEFC_FMR s) 16"
  shows "\<not> bit (EEFC_FMR s') 16
       \<and> bit (EEFC_FMR s') 16 = bit (EEFC_FMR s) 16
       \<and> EEFC_FMR s' = EEFC_FMR s
       \<and> writes_to FMR (accesses s')
           = writes_to FMR (accesses s) @ [EEFC_FMR s OR push_bit 16 1, EEFC_FMR s']
       \<and> bit (EEFC_FMR s OR push_bit 16 1) 16"
proof -
  from read_sequence_Some [OF assms(1,2)] obtain a b where
    fmr: "EEFC_FMR s' = (EEFC_FMR s OR push_bit 16 1) AND NOT (push_bit 16 1)"
    and acc: "accesses s' = accesses s
                      @ [Rd FMR, Wr FMR (EEFC_FMR s OR push_bit 16 1),
                         Wr FCR (EEFC_FCR_FKEY_PASSWD c OR EEFC_FCR_FARG c 0
                                  OR EEFC_FCR_FCMD c ul_cmd_st)]
                      @ replicate (Suc a) (Rd FSR)
                      @ copy_events p_ul_buf p_ul_data ul_size 0 (mem s)
                      @ [Wr FCR (EEFC_FCR_FKEY_PASSWD c OR EEFC_FCR_FARG c 0
                                  OR EEFC_FCR_FCMD c ul_cmd_sp)]
                      @ replicate (Suc b) (Rd FSR)
                      @ [Rd FMR, Wr FMR ((EEFC_FMR s OR push_bit 16 1) AND NOT (push_bit 16 1))]"
    by auto
  have fmr': "EEFC_FMR s' = EEFC_FMR s AND NOT (push_bit 16 1)"
    unfolding fmr by (rule clear_after_set)
  have w: "writes_to FMR (accesses s')
             = writes_to FMR (accesses s) @ [EEFC_FMR s OR push_bit 16 1, EEFC_FMR s']"
    unfolding acc fmr by (simp add: writes_to_append writes_to_polls writes_to_copy_events del: replicate_Suc)
  have 1: "\<not> bit (EEFC_FMR s') 16" unfolding fmr' by (rule mode_bit_off)
  have 2: "EEFC_FMR s' = EEFC_FMR s"
    unfolding fmr' using assms(3) by (rule mode_bit_same)
  from 1 2 w mode_bit_on [of "EEFC_FMR s"] show ?thesis by simp
qed

theorem read_sequence_mode_bit_witness:
  "\<not> bit (EEFC_FMR (snd (the
        (efc_perform_read_sequence spec_component_efc edges_trace 0x0E 0x0F 0x20000000 4
           0x00400000 idle_state)))) 16
   \<and> EEFC_FMR (snd (the
        (efc_perform_read_sequence spec_component_efc edges_trace 0x0E 0x0F 0x20000000 4
           0x00400000 idle_state))) = EEFC_FMR idle_state
   \<and> writes_to FMR (accesses (snd (the
        (efc_perform_read_sequence spec_component_efc edges_trace 0x0E 0x0F 0x20000000 4
           0x00400000 idle_state)))) = [0x10000, 0]
   \<and> \<not> bit (EEFC_FMR idle_state) 16"
proof -
  have nn: "(0x20000000 :: uint32_t) \<noteq> NULL" by (simp add: NULL_def)
  have off: "\<not> bit (EEFC_FMR idle_state) 16" by (simp add: idle_fields)
  from read_sequence_mode_bit [OF nn edges_run off] off
  show ?thesis by (simp add: edges_run idle_fields)
qed

text \<open>
  C6. With the Command register layout of the spec, a call of
  \<open>efc_perform_read_sequence\<close> with a buffer that returns has written the Command
  register exactly twice, first the start word and then the stop word. Each word has the
  key \<open>FWP_KEY\<close>, which is 0x5A, in bits 31 to 24, zero in the 16 argument bits 23 to 8,
  and the low 8 bits of its command in bits 7 to 0, which is the command itself for
  every command up to 0xFF.
\<close>

theorem read_sequence_command_writes:
  assumes "p_ul_buf \<noteq> NULL"
    and "efc_perform_read_sequence spec_component_efc tr ul_cmd_st ul_cmd_sp p_ul_buf ul_size
           p_ul_data s = Some (rc, s')"
  shows "\<exists>w_st w_sp.
           writes_to FCR (accesses s') = writes_to FCR (accesses s) @ [w_st, w_sp]
         \<and> w_st = EEFC_FCR_FKEY_PASSWD spec_component_efc OR EEFC_FCR_FARG spec_component_efc 0
                    OR EEFC_FCR_FCMD spec_component_efc ul_cmd_st
         \<and> w_sp = EEFC_FCR_FKEY_PASSWD spec_component_efc OR EEFC_FCR_FARG spec_component_efc 0
                    OR EEFC_FCR_FCMD spec_component_efc ul_cmd_sp
         \<and> drop_bit 24 w_st = FWP_KEY \<and> drop_bit 24 w_sp = FWP_KEY \<and> FWP_KEY = 0x5A
         \<and> take_bit 16 (drop_bit 8 w_st) = 0 \<and> take_bit 16 (drop_bit 8 w_sp) = 0
         \<and> take_bit 8 w_st = take_bit 8 ul_cmd_st \<and> take_bit 8 w_sp = take_bit 8 ul_cmd_sp
         \<and> (ul_cmd_st \<le> 0xFF \<longrightarrow> take_bit 8 w_st = ul_cmd_st)
         \<and> (ul_cmd_sp \<le> 0xFF \<longrightarrow> take_bit 8 w_sp = ul_cmd_sp)"
proof -
  let ?st = "EEFC_FCR_FKEY_PASSWD spec_component_efc OR EEFC_FCR_FARG spec_component_efc 0
               OR EEFC_FCR_FCMD spec_component_efc ul_cmd_st"
  let ?sp = "EEFC_FCR_FKEY_PASSWD spec_component_efc OR EEFC_FCR_FARG spec_component_efc 0
               OR EEFC_FCR_FCMD spec_component_efc ul_cmd_sp"
  from read_sequence_Some [OF assms] obtain a b where
    acc: "accesses s' = accesses s
            @ [Rd FMR, Wr FMR (EEFC_FMR s OR push_bit 16 1), Wr FCR ?st]
            @ replicate (Suc a) (Rd FSR) @ copy_events p_ul_buf p_ul_data ul_size 0 (mem s)
            @ [Wr FCR ?sp] @ replicate (Suc b) (Rd FSR)
            @ [Rd FMR, Wr FMR ((EEFC_FMR s OR push_bit 16 1) AND NOT (push_bit 16 1))]"
    by auto
  have w: "writes_to FCR (accesses s') = writes_to FCR (accesses s) @ [?st, ?sp]"
    unfolding acc by (simp add: writes_to_append writes_to_polls writes_to_copy_events del: replicate_Suc)
  have st: "?st = 0x5A000000 OR 0 OR (ul_cmd_st AND 0xFF)"
    and sp: "?sp = 0x5A000000 OR 0 OR (ul_cmd_sp AND 0xFF)"
    by (simp_all only: spec_fields)
  have key: "FWP_KEY = 0x5A" by (simp add: FWP_KEY_def)
  show ?thesis
    apply (rule exI [of _ ?st], rule exI [of _ ?sp])
    apply (intro conjI impI)
               apply (rule w)
              apply (rule refl)
             apply (rule refl)
            apply (simp only: st command_word_fields)
           apply (simp only: sp command_word_fields)
          apply (rule key)
         apply (simp only: st command_word_fields)
        apply (simp only: sp command_word_fields)
       apply (simp only: st command_word_fields)
      apply (simp only: sp command_word_fields)
     apply (simp only: st command_word_fields(4))
    apply (simp only: sp command_word_fields(4))
    done
qed

theorem read_sequence_command_writes_witness:
  "writes_to FCR (accesses (snd (the
      (efc_perform_read_sequence spec_component_efc edges_trace 0x0E 0x0F 0x20000000 4
         0x00400000 idle_state)))) = [0x5A00000E, 0x5A00000F]
   \<and> drop_bit 24 (0x5A00000E :: uint32_t) = 0x5A \<and> drop_bit 24 (0x5A00000F :: uint32_t) = 0x5A"
proof -
  have nn: "(0x20000000 :: uint32_t) \<noteq> NULL" by (simp add: NULL_def)
  from read_sequence_command_writes [OF nn edges_run]
  show ?thesis by (simp add: edges_run spec_fields FWP_KEY_def idle_fields)
qed

text \<open>
  C9. When a call with a non-null buffer returns, every element of the buffer at an index
  from \<open>ul_size\<close> up to its capacity is as it was (a buffer of \<open>cap\<close> words lies
  within the 4 GiB address space, so its elements have distinct addresses); more
  generally the call writes to no address but those of the elements below \<open>ul_size\<close>.
\<close>

theorem read_sequence_tail_unchanged:
  assumes "p_ul_buf \<noteq> NULL"
    and "efc_perform_read_sequence c tr ul_cmd_st ul_cmd_sp p_ul_buf ul_size p_ul_data s
           = Some (rc, s')"
  shows "(\<forall>cap j. ul_size \<le> j \<and> j < cap \<and> 4 * unat cap \<le> 2 ^ 32 \<longrightarrow>
            mem s' (p_ul_buf + 4 * j) = mem s (p_ul_buf + 4 * j))
       \<and> (\<forall>x. (\<forall>i<ul_size. x \<noteq> p_ul_buf + 4 * i) \<longrightarrow> mem s' x = mem s x)"
proof -
  from read_sequence_Some [OF assms]
  have m: "mem s' = copy_mem p_ul_buf p_ul_data ul_size 0 (mem s)" by auto
  have frame: "\<forall>x. (\<forall>i<ul_size. x \<noteq> p_ul_buf + 4 * i) \<longrightarrow> mem s' x = mem s x"
    unfolding m using copy_mem_frame by simp
  have "mem s' (p_ul_buf + 4 * j) = mem s (p_ul_buf + 4 * j)"
    if "ul_size \<le> j \<and> j < cap \<and> 4 * unat cap \<le> 2 ^ 32" for cap j
  proof -
    have "\<forall>i<ul_size. p_ul_buf + 4 * j \<noteq> p_ul_buf + 4 * i"
      using that word_index_apart by blast
    with frame show ?thesis by blast
  qed
  with frame show ?thesis by blast
qed

theorem read_sequence_tail_unchanged_witness:
  "mem (snd (the (efc_perform_read_sequence spec_component_efc edges_trace 0x0E 0x0F 0x20000000 4
           0x00400000 idle_state))) (0x20000000 + 4 * 5) = mem idle_state (0x20000000 + 4 * 5)
   \<and> (4::uint32_t) \<le> 5 \<and> (5::uint32_t) < 8 \<and> 4 * unat (8::uint32_t) \<le> 2 ^ 32"
proof -
  have nn: "(0x20000000 :: uint32_t) \<noteq> NULL" by (simp add: NULL_def)
  have cap: "(4::uint32_t) \<le> 5 \<and> (5::uint32_t) < 8 \<and> 4 * unat (8::uint32_t) \<le> 2 ^ 32"
    by simp
  from read_sequence_tail_unchanged
         [OF nn edges_run, THEN conjunct1, THEN spec, THEN spec, THEN mp, OF cap]
  have "mem (snd (the (efc_perform_read_sequence spec_component_efc edges_trace 0x0E 0x0F
           0x20000000 4 0x00400000 idle_state))) (0x20000000 + 4 * 5)
          = mem idle_state (0x20000000 + 4 * 5)"
    by (simp only: edges_run option.sel snd_conv)
  with cap show ?thesis by simp
qed

text \<open>
  C10. A call of \<open>efc_perform_read_sequence\<close> that returns, returns
  \<open>EFC_RC_INVALID\<close>, which is 2, if the buffer pointer is null and \<open>EFC_RC_OK\<close>, which
  is 0, otherwise; it never returns \<open>EFC_RC_ERROR\<close>, \<open>EFC_RC_NO\<close> or
  \<open>EFC_RC_NOT_SUPPORT\<close>.
\<close>

theorem read_sequence_return_codes:
  assumes "efc_perform_read_sequence c tr ul_cmd_st ul_cmd_sp p_ul_buf ul_size p_ul_data s
             = Some (rc, s')"
  shows "(if p_ul_buf = NULL then rc = EFC_RC_INVALID \<and> rc = 2 else rc = EFC_RC_OK \<and> rc = 0)
         \<and> rc \<noteq> EFC_RC_ERROR \<and> rc \<noteq> EFC_RC_NO \<and> rc \<noteq> EFC_RC_NOT_SUPPORT"
proof (cases "p_ul_buf = NULL")
  case True
  with assms read_sequence_null have "rc = EFC_RC_INVALID" by simp
  with True show ?thesis
    by (simp add: EFC_RC_INVALID_def EFC_RC_ERROR_def EFC_RC_NO_def EFC_RC_NOT_SUPPORT_def)
next
  case False
  from read_sequence_Some [OF False assms] have "rc = EFC_RC_OK" by blast
  with False show ?thesis
    by (simp add: EFC_RC_OK_def EFC_RC_ERROR_def EFC_RC_NO_def EFC_RC_NOT_SUPPORT_def)
qed

theorem read_sequence_return_codes_witness:
  "map_option fst (efc_perform_read_sequence spec_component_efc edges_trace 0x0E 0x0F
       0x20000000 4 0x00400000 idle_state) = Some 0
   \<and> map_option fst (efc_perform_read_sequence spec_component_efc edges_trace 0x0E 0x0F
       0 4 0x00400000 idle_state) = Some 2"
proof -
  have null: "efc_perform_read_sequence spec_component_efc edges_trace 0x0E 0x0F
       0 4 0x00400000 idle_state = Some (EFC_RC_INVALID, idle_state)"
    using read_sequence_null [of spec_component_efc edges_trace "0x0E" "0x0F" 4 "0x00400000"
            idle_state]
    by (simp add: NULL_def)
  from read_sequence_return_codes [OF null] have "EFC_RC_INVALID = 2"
    by (simp add: NULL_def)
  moreover from read_sequence_return_codes [OF edges_run] have "(0::uint32_t) = 0"
    by simp
  ultimately show ?thesis by (simp add: null edges_run)
qed

section \<open>Claims about efc\_perform\_fcr\<close>

text \<open>
  C3. If poll \<open>n\<close> of a call of \<open>efc_perform_fcr\<close> is the first at which the Status
  register shows Ready set, then the call returns, for every command word, and its value
  is the status read at that poll masked with \<open>EEFC_ERROR_FLAGS\<close>, the union of the
  flags LockError, CommandError and ProgrammingError. The value is 0 exactly if none of
  the three flags is in that status, and it has no bit of the Ready flag whenever the
  header keeps Ready apart from the three.
\<close>

theorem perform_fcr_status:
  assumes "frdy c (tr (fsr_reads s + n))" and "\<forall>k<n. \<not> frdy c (tr (fsr_reads s + k))"
  shows "\<exists>s'. efc_perform_fcr c tr ul_fcr s
                 = Some (tr (fsr_reads s + n) AND EEFC_ERROR_FLAGS c, s')
       \<and> EEFC_ERROR_FLAGS c = EEFC_FSR_FLOCKE c OR EEFC_FSR_FCMDE c OR EEFC_FSR_FLERR c
       \<and> ((tr (fsr_reads s + n) AND EEFC_ERROR_FLAGS c = 0)
            = (tr (fsr_reads s + n) AND EEFC_FSR_FLOCKE c = 0
               \<and> tr (fsr_reads s + n) AND EEFC_FSR_FCMDE c = 0
               \<and> tr (fsr_reads s + n) AND EEFC_FSR_FLERR c = 0))
       \<and> (EEFC_ERROR_FLAGS c AND EEFC_FSR_FRDY c = 0 \<longrightarrow>
            (tr (fsr_reads s + n) AND EEFC_ERROR_FLAGS c) AND EEFC_FSR_FRDY c = 0)"
proof -
  have zero: "(tr (fsr_reads s + n) AND EEFC_ERROR_FLAGS c = 0)
            = (tr (fsr_reads s + n) AND EEFC_FSR_FLOCKE c = 0
               \<and> tr (fsr_reads s + n) AND EEFC_FSR_FCMDE c = 0
               \<and> tr (fsr_reads s + n) AND EEFC_FSR_FLERR c = 0)"
    unfolding EEFC_ERROR_FLAGS_def by (rule and_flags_zero_iff)
  from perform_fcr_exit [OF assms] zero and_flags_no_ready show ?thesis
    by (simp add: EEFC_ERROR_FLAGS_def)
qed

theorem perform_fcr_status_witness:
  "map_option fst (efc_perform_fcr spec_component_efc lock_error_trace 0x5A000001 idle_state)
     = Some 4
   \<and> map_option fst (efc_perform_fcr spec_component_efc ready_trace 0x5A000001 idle_state)
     = Some 0"
proof -
  have a: "frdy spec_component_efc (lock_error_trace (fsr_reads idle_state + 2))"
    and b: "\<forall>k<2. \<not> frdy spec_component_efc (lock_error_trace (fsr_reads idle_state + k))"
    by (simp_all add: frdy_spec lock_error_trace_def idle_fields)
  have c: "frdy spec_component_efc (ready_trace (fsr_reads idle_state + 0))"
    and d: "\<forall>k<0. \<not> frdy spec_component_efc (ready_trace (fsr_reads idle_state + k))"
    by (simp_all add: frdy_spec ready_trace_def)
  have v: "lock_error_trace (fsr_reads idle_state + 2) AND EEFC_ERROR_FLAGS spec_component_efc = 4"
    "ready_trace (fsr_reads idle_state + 0) AND EEFC_ERROR_FLAGS spec_component_efc = 0"
    by (simp_all add: lock_error_trace_def ready_trace_def idle_fields EEFC_ERROR_FLAGS_def
          spec_fields)
  from perform_fcr_status [OF a b, of "0x5A000001"] perform_fcr_status [OF c d, of "0x5A000001"]
  show ?thesis
    unfolding v by auto
qed

text \<open>
  C7. The value \<open>efc_perform_fcr\<close> returns for a command word depends on nothing but
  the status values that its polls are going to read: two calls with the same command
  word, from any two states, against traces that agree from the calls on, return the same
  value, or both never return. That covers the same call repeated from the same state,
  and a second call made after the first against a controller that answers as before.
\<close>

theorem perform_fcr_deterministic:
  assumes "\<forall>k. tr1 (fsr_reads s1 + k) = tr2 (fsr_reads s2 + k)"
  shows "map_option fst (efc_perform_fcr c tr1 ul_fcr s1)
           = map_option fst (efc_perform_fcr c tr2 ul_fcr s2)"
proof (cases "\<exists>k. frdy c (tr1 (fsr_reads s1 + k))")
  case True
  then obtain b where "frdy c (tr1 (fsr_reads (write_FCR ul_fcr s1) + b))"
    by (auto simp: fsr_reads_write_FCR)
  from wait_frdy_rises_returns [of c tr1 "write_FCR ul_fcr s1" b, OF this] obtain n where
    n1: "frdy c (tr1 (fsr_reads s1 + n))" "\<forall>k<n. \<not> frdy c (tr1 (fsr_reads s1 + k))"
    by (auto simp: fsr_reads_write_FCR)
  from n1 assms have
    n2: "frdy c (tr2 (fsr_reads s2 + n))" "\<forall>k<n. \<not> frdy c (tr2 (fsr_reads s2 + k))"
    by simp_all
  from perform_fcr_exit [OF n1] perform_fcr_exit [OF n2] assms show ?thesis by simp
next
  case False
  then have "\<forall>k. \<not> frdy c (tr1 (fsr_reads s1 + k))" by blast
  moreover from this assms have "\<forall>k. \<not> frdy c (tr2 (fsr_reads s2 + k))" by simp
  ultimately show ?thesis by (simp add: perform_fcr_stuck)
qed

theorem perform_fcr_deterministic_witness:
  "map_option fst (efc_perform_fcr spec_component_efc ready_trace 0x5A000001 idle_state) = Some 0
   \<and> map_option fst (efc_perform_fcr spec_component_efc ready_trace 0x5A000001
        (snd (the (efc_perform_fcr spec_component_efc ready_trace 0x5A000001 idle_state))))
      = Some 0"
proof -
  have "\<forall>k. ready_trace (fsr_reads idle_state + k)
          = ready_trace (fsr_reads
              (snd (the (efc_perform_fcr spec_component_efc ready_trace 0x5A000001 idle_state)))
              + k)"
    by (simp add: ready_trace_def)
  from perform_fcr_deterministic [OF this, of spec_component_efc "0x5A000001"]
  show ?thesis by (simp add: ready_fcr_run)
qed

text \<open>
  C8. A call of \<open>efc_perform_fcr\<close> that returns has made these register accesses and
  no other: one write of the command word to the Command register, then one or more
  reads of the Status register. It has written neither the Mode nor the Status register,
  has written the Command register once, and has left the memory as it was.
\<close>

theorem perform_fcr_single_write:
  assumes "efc_perform_fcr c tr ul_fcr s = Some (r, s')"
  shows "(\<exists>n. accesses s' = accesses s @ Wr FCR ul_fcr # replicate (Suc n) (Rd FSR))
       \<and> writes_to FCR (accesses s') = writes_to FCR (accesses s) @ [ul_fcr]
       \<and> writes_to FMR (accesses s') = writes_to FMR (accesses s)
       \<and> writes_to FSR (accesses s') = writes_to FSR (accesses s)
       \<and> EEFC_FCR s' = ul_fcr \<and> EEFC_FMR s' = EEFC_FMR s \<and> mem s' = mem s"
proof -
  from perform_fcr_Some [OF assms] obtain n where
    s': "s' = polls (Suc n) (write_FCR ul_fcr s)" by blast
  have acc: "accesses s' = accesses s @ Wr FCR ul_fcr # replicate (Suc n) (Rd FSR)"
    unfolding s' by (simp add: polls_def write_FCR_def)
  have "writes_to r (accesses s')
          = writes_to r (accesses s) @ (if r = FCR then [ul_fcr] else [])" for r
    unfolding acc by (simp add: writes_to_append writes_to_polls writes_to_copy_events del: replicate_Suc)
  then have w: "writes_to FCR (accesses s') = writes_to FCR (accesses s) @ [ul_fcr]"
    "writes_to FMR (accesses s') = writes_to FMR (accesses s)"
    "writes_to FSR (accesses s') = writes_to FSR (accesses s)"
    by simp_all
  have f: "EEFC_FCR s' = ul_fcr \<and> EEFC_FMR s' = EEFC_FMR s \<and> mem s' = mem s"
    unfolding s' by (simp add: polls_def write_FCR_def)
  from acc w f show ?thesis by blast
qed

theorem perform_fcr_single_write_witness:
  "accesses (snd (the (efc_perform_fcr spec_component_efc lock_error_trace 0x5A000001
       idle_state))) = [Wr FCR 0x5A000001, Rd FSR, Rd FSR, Rd FSR]
   \<and> writes_to FCR (accesses (snd (the (efc_perform_fcr spec_component_efc lock_error_trace
       0x5A000001 idle_state)))) = [0x5A000001]"
proof -
  have run: "efc_perform_fcr spec_component_efc lock_error_trace 0x5A000001 idle_state
     = Some (4, \<lparr> EEFC_FMR = 0, EEFC_FCR = 0x5A000001, fsr_reads = 3,
                  accesses = [Wr FCR 0x5A000001, Rd FSR, Rd FSR, Rd FSR], mem = id \<rparr>)"
    by (simp add: efc_perform_fcr_def write_FCR_def wait_frdy_rises_step frdy_spec
          lock_error_trace_def polls_def idle_state_def EEFC_ERROR_FLAGS_def spec_fields)
  from perform_fcr_single_write [OF run] show ?thesis
    by (simp add: run idle_fields)
qed

end
